theory Spec2Isabelle
  imports Main "HOL-Library.Word"
begin

section \<open>The InvoiceManager contract\<close>

text \<open>
  A shallow embedding of the Solidity contract \<^verbatim>\<open>InvoiceManager\<close>
  (pragma \<^verbatim>\<open>^0.8.17\<close>). The storage of the contract is a record; a
  Solidity \<^verbatim>\<open>mapping\<close> is a total function whose value at a key never
  written is the zero value of its type, which is how the contract itself tests
  whether an invoice exists (\<^verbatim>\<open>invoice.issuer != address(0)\<close>).

  \<^verbatim>\<open>uint256\<close> is \<open>256 word\<close> and \<^verbatim>\<open>address\<close> is \<open>160 word\<close>.
  Arithmetic in Solidity 0.8 is checked: an addition or subtraction that leaves the
  range reverts with \<^verbatim>\<open>Panic(0x11)\<close>; the model writes every such check out.

  The record has the six state variables the contract declares. The owner that
  \<^verbatim>\<open>Ownable\<close> keeps is read by no function of the contract and is not
  modelled. The ether the contract holds is no state variable; it is counted
  beside the storage, where transactions are delivered.
\<close>

type_synonym uint256 = "256 word"
type_synonym address = "160 word"

record Invoice =
  id :: uint256
  issuer :: address
  payer :: address
  amount :: uint256
  paidAmount :: uint256
  dueDate :: uint256
  cancelled :: bool

record ledger =
  nextInvoiceId :: uint256
  invoices :: "uint256 \<Rightarrow> Invoice"
  invoiceMetadata :: "uint256 \<Rightarrow> string"
  pendingReturns :: "address \<Rightarrow> uint256"
  invoicesOfIssuer :: "address \<Rightarrow> uint256 list"
  invoicesOfPayer :: "address \<Rightarrow> uint256 list"

text \<open>The storage of a freshly deployed contract: every slot is zero.\<close>

definition zero_invoice :: Invoice where
  "zero_invoice = \<lparr>id = 0, issuer = 0, payer = 0, amount = 0, paidAmount = 0,
     dueDate = 0, cancelled = False\<rparr>"

definition ledger0 :: ledger where
  "ledger0 = \<lparr>nextInvoiceId = 0, invoices = (\<lambda>_. zero_invoice),
     invoiceMetadata = (\<lambda>_. []), pendingReturns = (\<lambda>_. 0),
     invoicesOfIssuer = (\<lambda>_. []), invoicesOfPayer = (\<lambda>_. [])\<rparr>"

text \<open>
  The ways a call reverts. Each \<^verbatim>\<open>require\<close> of the contract is one error,
  named after the error kind the specification gives it:
  \<^item> \<open>InvalidAmount\<close>: "amount must be greater than 0" (createInvoice) and
    "payment amount must be greater than 0" (payInvoice);
  \<^item> \<open>InvoiceNotFound\<close>: "invoice does not exist";
  \<^item> \<open>InvoiceIsCancelled\<close>: "invoice is cancelled" (the specification's
    InvoiceCancelled; that name is the event's here);
  \<^item> \<open>UnauthorizedPayer\<close>: "invoice is not addressed to you";
  \<^item> \<open>AlreadyFullyPaid\<close>: "invoice is already fully paid";
  \<^item> \<open>Unauthorized\<close>: "only issuer can withdraw", "only issuer can cancel";
  \<^item> \<open>NoFundsToWithdraw\<close>: "no funds to withdraw";
  \<^item> \<open>AlreadyCancelled\<close>: "invoice is already cancelled";
  \<^item> \<open>NoPendingReturns\<close>: "no pending returns";
  \<^item> \<open>TransferFailed\<close>: \<^verbatim>\<open>sendValue\<close> reverted;
  \<^item> \<open>Panic\<close>: a checked arithmetic operation left the range of uint256.
\<close>

datatype error =
    InvalidAmount
  | InvoiceNotFound
  | InvoiceIsCancelled
  | UnauthorizedPayer
  | AlreadyFullyPaid
  | Unauthorized
  | NoFundsToWithdraw
  | AlreadyCancelled
  | NoPendingReturns
  | TransferFailed
  | Panic

text \<open>
  What a call does to the outside, in the order in which it does it: the events it
  emits and the ether it sends with \<^verbatim>\<open>sendValue\<close>.
\<close>

datatype effect =
    InvoiceCreated uint256 address address uint256
  | InvoicePaid uint256 address uint256 uint256
  | InvoiceCancelled uint256
  | InvoiceWithdrawn uint256 address uint256
  | PendingReturnWithdrawn address uint256
  | SendValue address uint256

text \<open>
  A function body maps the storage to its outcome and the storage at the moment the
  body stops: where it returned, or where it reverted.
\<close>

type_synonym 'a body = "ledger \<Rightarrow> (error + 'a) \<times> ledger"

text \<open>
  \<^verbatim>\<open>Address.sendValue\<close> belongs to OpenZeppelin, not to the repository, and
  what it does depends on the recipient. It is a parameter of the model: whether the
  transfer succeeds, given the storage of the contract at the moment of the call,
  the recipient and the amount. The transfer is atomic and leaves the storage of
  the contract alone (the specification's contract for the external collaborator).
\<close>

type_synonym transfer = "ledger \<Rightarrow> address \<Rightarrow> uint256 \<Rightarrow> bool"

subsection \<open>Checked arithmetic\<close>

definition checked_add :: "uint256 \<Rightarrow> uint256 \<Rightarrow> uint256 option" where
  "checked_add a b = (if unat a + unat b < 2 ^ 256 then Some (a + b) else None)"

definition checked_sub :: "uint256 \<Rightarrow> uint256 \<Rightarrow> uint256 option" where
  "checked_sub a b = (if unat b \<le> unat a then Some (a - b) else None)"

subsection \<open>The functions of the contract\<close>

text \<open>
  \<^verbatim>\<open>msg.sender\<close> is the first argument of every function that reads it and
  \<^verbatim>\<open>msg.value\<close> the last argument of \<open>payInvoice\<close>.
\<close>

definition createInvoice ::
  "address \<Rightarrow> address \<Rightarrow> uint256 \<Rightarrow> uint256 \<Rightarrow> string \<Rightarrow> (uint256 \<times> effect list) body" where
  "createInvoice sender payer' amount' dueDate' metadata s =
    (if \<not> amount' > 0 then (Inl InvalidAmount, s)
     else
       let invoiceId = nextInvoiceId s in
       case checked_add (nextInvoiceId s) 1 of
         None \<Rightarrow> (Inl Panic, s)
       | Some next \<Rightarrow>
           let s1 = s\<lparr>nextInvoiceId := next\<rparr>;
               s2 = s1\<lparr>invoices := (invoices s1)(invoiceId :=
                      \<lparr>id = invoiceId, issuer = sender, payer = payer', amount = amount',
                       paidAmount = 0, dueDate = dueDate', cancelled = False\<rparr>)\<rparr>;
               s3 = s2\<lparr>invoiceMetadata := (invoiceMetadata s2)(invoiceId := metadata)\<rparr>;
               s4 = s3\<lparr>invoicesOfIssuer := (invoicesOfIssuer s3)(sender :=
                      invoicesOfIssuer s3 sender @ [invoiceId])\<rparr>;
               s5 = (if payer' \<noteq> 0
                     then s4\<lparr>invoicesOfPayer := (invoicesOfPayer s4)(payer' :=
                            invoicesOfPayer s4 payer' @ [invoiceId])\<rparr>
                     else s4)
           in (Inr (invoiceId, [InvoiceCreated invoiceId sender payer' amount']), s5))"

definition payInvoice :: "address \<Rightarrow> uint256 \<Rightarrow> uint256 \<Rightarrow> effect list body" where
  "payInvoice sender invoiceId msg_value s =
    (if \<not> msg_value > 0 then (Inl InvalidAmount, s)
     else
       let invoice = invoices s invoiceId in
       if \<not> issuer invoice \<noteq> 0 then (Inl InvoiceNotFound, s)
       else if \<not> \<not> cancelled invoice then (Inl InvoiceIsCancelled, s)
       else if \<not> (payer invoice = 0 \<or> payer invoice = sender) then (Inl UnauthorizedPayer, s)
       else
         case checked_sub (amount invoice) (paidAmount invoice) of
           None \<Rightarrow> (Inl Panic, s)
         | Some remaining \<Rightarrow>
             if \<not> remaining > 0 then (Inl AlreadyFullyPaid, s)
             else
               let credited =
                     (if msg_value > remaining
                      then (case checked_add (pendingReturns s sender) (msg_value - remaining) of
                              None \<Rightarrow> None
                            | Some p \<Rightarrow>
                                Some (s\<lparr>pendingReturns := (pendingReturns s)(sender := p)\<rparr>,
                                      remaining))
                      else Some (s, msg_value))
               in case credited of
                    None \<Rightarrow> (Inl Panic, s)
                  | Some (s1, paymentAmount) \<Rightarrow>
                      (case checked_add (paidAmount (invoices s1 invoiceId)) paymentAmount of
                         None \<Rightarrow> (Inl Panic, s1)
                       | Some paid \<Rightarrow>
                           (Inr [InvoicePaid invoiceId sender paymentAmount paid],
                            s1\<lparr>invoices := (invoices s1)(invoiceId :=
                                 (invoices s1 invoiceId)\<lparr>paidAmount := paid\<rparr>)\<rparr>)))"

definition withdraw :: "transfer \<Rightarrow> address \<Rightarrow> uint256 \<Rightarrow> effect list body" where
  "withdraw sendValue sender invoiceId s =
    (let invoice = invoices s invoiceId in
     if \<not> issuer invoice \<noteq> 0 then (Inl InvoiceNotFound, s)
     else if \<not> issuer invoice = sender then (Inl Unauthorized, s)
     else if \<not> paidAmount invoice > 0 then (Inl NoFundsToWithdraw, s)
     else
       let withdrawAmount = paidAmount invoice;
           s1 = s\<lparr>invoices := (invoices s)(invoiceId := invoice\<lparr>paidAmount := 0\<rparr>)\<rparr>
       in if \<not> sendValue s1 sender withdrawAmount then (Inl TransferFailed, s1)
          else (Inr [SendValue sender withdrawAmount,
                     InvoiceWithdrawn invoiceId sender withdrawAmount], s1))"

definition cancelInvoice :: "address \<Rightarrow> uint256 \<Rightarrow> effect list body" where
  "cancelInvoice sender invoiceId s =
    (let invoice = invoices s invoiceId in
     if \<not> issuer invoice \<noteq> 0 then (Inl InvoiceNotFound, s)
     else if \<not> issuer invoice = sender then (Inl Unauthorized, s)
     else if \<not> \<not> cancelled invoice then (Inl AlreadyCancelled, s)
     else
       let s1 = s\<lparr>invoices := (invoices s)(invoiceId := invoice\<lparr>cancelled := True\<rparr>)\<rparr>;
           invoice1 = invoices s1 invoiceId
       in if paidAmount invoice1 > 0 \<and> payer invoice1 \<noteq> 0
          then (case checked_add (pendingReturns s1 (payer invoice1)) (paidAmount invoice1) of
                  None \<Rightarrow> (Inl Panic, s1)
                | Some p \<Rightarrow>
                    let s2 = s1\<lparr>pendingReturns := (pendingReturns s1)(payer invoice1 := p)\<rparr>;
                        s3 = s2\<lparr>invoices := (invoices s2)(invoiceId :=
                               (invoices s2 invoiceId)\<lparr>paidAmount := 0\<rparr>)\<rparr>
                    in (Inr [InvoiceCancelled invoiceId], s3))
          else (Inr [InvoiceCancelled invoiceId], s1))"

definition withdrawPending :: "transfer \<Rightarrow> address \<Rightarrow> effect list body" where
  "withdrawPending sendValue sender s =
    (let amount' = pendingReturns s sender in
     if \<not> amount' > 0 then (Inl NoPendingReturns, s)
     else
       let s1 = s\<lparr>pendingReturns := (pendingReturns s)(sender := 0)\<rparr>
       in if \<not> sendValue s1 sender amount' then (Inl TransferFailed, s1)
          else (Inr [SendValue sender amount', PendingReturnWithdrawn sender amount'], s1))"

text \<open>The view functions read the storage and leave it alone.\<close>

definition getInvoice :: "ledger \<Rightarrow> uint256 \<Rightarrow> error + Invoice \<times> string" where
  "getInvoice s invoiceId =
    (let invoice = invoices s invoiceId in
     if \<not> issuer invoice \<noteq> 0 then Inl InvoiceNotFound
     else Inr (invoice, invoiceMetadata s invoiceId))"

definition getInvoicesOfIssuer :: "ledger \<Rightarrow> address \<Rightarrow> uint256 list" where
  "getInvoicesOfIssuer s a = invoicesOfIssuer s a"

definition getInvoicesOfPayer :: "ledger \<Rightarrow> address \<Rightarrow> uint256 list" where
  "getInvoicesOfPayer s a = invoicesOfPayer s a"

definition getRemainingAmount :: "ledger \<Rightarrow> uint256 \<Rightarrow> error + uint256" where
  "getRemainingAmount s invoiceId =
    (let invoice = invoices s invoiceId in
     if \<not> issuer invoice \<noteq> 0 then Inl InvoiceNotFound
     else if amount invoice > paidAmount invoice
          then Inr (amount invoice - paidAmount invoice)
          else Inr 0)"

subsection \<open>Calls as transactions\<close>

text \<open>
  A call that reverts leaves no trace: the storage after it is the storage before it.
  \<open>transact\<close> turns a body into the call the outside sees.
\<close>

definition transact :: "'a body \<Rightarrow> 'a body" where
  "transact b s = (case b s of (Inl e, _) \<Rightarrow> (Inl e, s) | (Inr r, s') \<Rightarrow> (Inr r, s'))"

text \<open>
  The mutating functions of the contract as one type of calls. A call to
  \<open>withdraw\<close> or \<open>withdrawPending\<close> carries the behaviour of its transfer.
  \<^verbatim>\<open>nonReentrant\<close> (OpenZeppelin's ReentrancyGuard) rejects a guarded call made
  while another guarded call runs; the calls here are the outermost ones, one at a
  time, for which the guard is open.
\<close>

datatype call =
    CreateInvoice address address uint256 uint256 string
  | PayInvoice address uint256 uint256
  | Withdraw transfer address uint256
  | CancelInvoice address uint256
  | WithdrawPending transfer address

fun msg_sender :: "call \<Rightarrow> address" where
  "msg_sender (CreateInvoice c _ _ _ _) = c"
| "msg_sender (PayInvoice c _ _) = c"
| "msg_sender (Withdraw _ c _) = c"
| "msg_sender (CancelInvoice c _) = c"
| "msg_sender (WithdrawPending _ c) = c"

fun body_of :: "call \<Rightarrow> effect list body" where
  "body_of (CreateInvoice c p a d m) s =
     (case createInvoice c p a d m s of
        (Inl e, s') \<Rightarrow> (Inl e, s') | (Inr (_, evs), s') \<Rightarrow> (Inr evs, s'))"
| "body_of (PayInvoice c i v) s = payInvoice c i v s"
| "body_of (Withdraw t c i) s = withdraw t c i s"
| "body_of (CancelInvoice c i) s = cancelInvoice c i s"
| "body_of (WithdrawPending t c) s = withdrawPending t c s"

definition exec :: "call \<Rightarrow> effect list body" where
  "exec c = transact (body_of c)"

text \<open>
  A sequence of successful calls: \<open>run s cs\<close> is the storage after the calls
  \<open>cs\<close>, made in this order from \<open>s\<close>, and \<open>None\<close> when one of them reverts.
\<close>

fun run :: "ledger \<Rightarrow> call list \<Rightarrow> ledger option" where
  "run s [] = Some s"
| "run s (c # cs) =
     (case exec c s of (Inl _, _) \<Rightarrow> None | (Inr _, s') \<Rightarrow> run s' cs)"

subsection \<open>The ether of the contract\<close>

text \<open>
  \<open>payInvoice\<close> is \<^verbatim>\<open>payable\<close>: the EVM adds \<^verbatim>\<open>msg.value\<close> to the
  balance of the contract before the body runs, and it cannot deliver a call whose
  value would take the balance out of the range of uint256. The other functions take
  no value. \<^verbatim>\<open>receive\<close> takes ether and touches no storage.
\<close>

datatype transaction = Call call | Receive uint256

fun msg_value :: "call \<Rightarrow> uint256" where
  "msg_value (PayInvoice _ _ v) = v"
| "msg_value _ = 0"

text \<open>The ether a successful call sends out with \<^verbatim>\<open>sendValue\<close>.\<close>

fun ether_sent :: "effect list \<Rightarrow> nat" where
  "ether_sent [] = 0"
| "ether_sent (SendValue _ w # es) = unat w + ether_sent es"
| "ether_sent (_ # es) = ether_sent es"

text \<open>
  One transaction on the balance and the storage of the contract, \<open>None\<close> when
  it cannot be delivered or reverts. \<^verbatim>\<open>sendValue\<close> reverts when the balance is
  below the amount it is to send.
\<close>

fun deliver :: "transaction \<Rightarrow> uint256 \<times> ledger \<Rightarrow> (uint256 \<times> ledger) option" where
  "deliver (Receive v) (bal, s) =
     (if unat bal + unat v < 2 ^ 256 then Some (bal + v, s) else None)"
| "deliver (Call k) (bal, s) =
     (if \<not> unat bal + unat (msg_value k) < 2 ^ 256 then None
      else case exec k s of
             (Inl _, _) \<Rightarrow> None
           | (Inr evs, s') \<Rightarrow>
               if ether_sent evs \<le> unat (bal + msg_value k)
               then Some (bal + msg_value k - of_nat (ether_sent evs), s')
               else None)"

fun run_ether :: "uint256 \<times> ledger \<Rightarrow> transaction list \<Rightarrow> (uint256 \<times> ledger) option" where
  "run_ether w [] = Some w"
| "run_ether w (x # xs) =
     (case deliver x w of None \<Rightarrow> None | Some w' \<Rightarrow> run_ether w' xs)"

text \<open>
  What the storage accounts for: the paid amounts of all invoices and the pending
  returns of all accounts.
\<close>

definition paid_total :: "ledger \<Rightarrow> nat" where
  "paid_total s = (\<Sum>j \<in> UNIV. unat (paidAmount (invoices s j)))"

definition pending_total :: "ledger \<Rightarrow> nat" where
  "pending_total s = (\<Sum>a \<in> UNIV. unat (pendingReturns s a))"

section \<open>Auxiliary facts\<close>

subsection \<open>Words and payments\<close>

lemma uint256_bound: "unat (x :: uint256) < 2 ^ 256"
  using unsigned_less [of x, where 'a = nat] by simp

lemma unat_checked_sub:
  "unat b \<le> unat a \<Longrightarrow> unat (a - b :: uint256) = unat a - unat b"
  by (simp add: unat_sub word_le_nat_alt)

lemma unat_checked_add:
  "unat a + unat b < 2 ^ 256 \<Longrightarrow> unat (a + b :: uint256) = unat a + unat b"
  by (simp add: unat_add_lem [THEN iffD1])

text \<open>
  \<open>payInvoice\<close> in normal form: the failures in the order in which the body
  meets them, and the storage a successful payment leaves. The last checked addition
  of the body, \<^verbatim>\<open>invoice.paidAmount += paymentAmount\<close>, never panics: what it
  adds is at most the remaining amount.
\<close>

lemma payInvoice_cases:
  "payInvoice c i v s =
    (let inv = invoices s i;
         applied = (if v > amount inv - paidAmount inv then amount inv - paidAmount inv else v)
     in
     if v = 0 then (Inl InvalidAmount, s)
     else if issuer inv = 0 then (Inl InvoiceNotFound, s)
     else if cancelled inv then (Inl InvoiceIsCancelled, s)
     else if payer inv \<noteq> 0 \<and> payer inv \<noteq> c then (Inl UnauthorizedPayer, s)
     else if unat (amount inv) < unat (paidAmount inv) then (Inl Panic, s)
     else if amount inv = paidAmount inv then (Inl AlreadyFullyPaid, s)
     else if \<not> unat (pendingReturns s c) + unat (v - applied) < 2 ^ 256 then (Inl Panic, s)
     else (Inr [InvoicePaid i c applied (paidAmount inv + applied)],
           s\<lparr>pendingReturns := (pendingReturns s)(c := pendingReturns s c + (v - applied)),
             invoices := (invoices s)(i := inv\<lparr>paidAmount := paidAmount inv + applied\<rparr>)\<rparr>))"
proof -
  let ?a = "amount (invoices s i)" and ?p = "paidAmount (invoices s i)"
  have bound: "unat ?a < 2 ^ 256" by (rule uint256_bound)
  show ?thesis
  proof (cases "unat ?a < unat ?p")
    case True
    then show ?thesis
      by (auto simp: payInvoice_def Let_def checked_sub_def word_greater_zero_iff)
  next
    case False
    then have le: "unat ?p \<le> unat ?a" by simp
    then have rem: "unat (?a - ?p) = unat ?a - unat ?p" by (rule unat_checked_sub)
    show ?thesis
    proof (cases "v > ?a - ?p")
      case True
      then have "unat v > unat ?a - unat ?p" using rem by (simp add: word_less_nat_alt)
      moreover have "unat ?p + unat (?a - ?p) < 2 ^ 256" using rem le bound by simp
      ultimately show ?thesis using True le rem
        by (auto simp: payInvoice_def Let_def checked_sub_def checked_add_def
            word_greater_zero_iff unat_eq_zero)
    next
      case False
      then have "unat v \<le> unat ?a - unat ?p" using rem by (simp add: word_less_nat_alt)
      then have "unat ?p + unat v < 2 ^ 256" using le bound by simp
      then show ?thesis using False le rem uint256_bound [of "pendingReturns s c"]
        by (auto simp: payInvoice_def Let_def checked_sub_def checked_add_def
            word_greater_zero_iff unat_eq_zero)
    qed
  qed
qed

text \<open>The arithmetic of a successful payment, in natural numbers.\<close>

lemma payInvoice_success:
  assumes "payInvoice c i v s = (Inr evs, s')"
  defines "a \<equiv> unat (amount (invoices s i))" and "p \<equiv> unat (paidAmount (invoices s i))"
  shows "v \<noteq> 0" "issuer (invoices s i) \<noteq> 0" "\<not> cancelled (invoices s i)"
    "payer (invoices s i) = 0 \<or> payer (invoices s i) = c"
    "p < a"
    "\<exists>paid pend. s' = s\<lparr>pendingReturns := (pendingReturns s)(c := pend),
             invoices := (invoices s)(i := (invoices s i)\<lparr>paidAmount := paid\<rparr>)\<rparr>
        \<and> unat paid = p + min (unat v) (a - p)
        \<and> unat pend = unat (pendingReturns s c) + (unat v - min (unat v) (a - p))
        \<and> evs = [InvoicePaid i c (paid - paidAmount (invoices s i)) paid]"
proof -
  let ?inv = "invoices s i"
  let ?ap = "if v > amount ?inv - paidAmount ?inv then amount ?inv - paidAmount ?inv else v"
  from assms(1) have c: "v \<noteq> 0" "issuer ?inv \<noteq> 0" "\<not> cancelled ?inv"
      "payer ?inv = 0 \<or> payer ?inv = c" "\<not> a < p" "amount ?inv \<noteq> paidAmount ?inv"
      "unat (pendingReturns s c) + unat (v - ?ap) < 2 ^ 256"
    and s': "s' = s\<lparr>pendingReturns := (pendingReturns s)(c := pendingReturns s c + (v - ?ap)),
             invoices := (invoices s)(i := ?inv\<lparr>paidAmount := paidAmount ?inv + ?ap\<rparr>)\<rparr>"
    and evs: "evs = [InvoicePaid i c ?ap (paidAmount ?inv + ?ap)]"
    unfolding payInvoice_cases Let_def a_def p_def by (simp_all split: if_splits)
  show "v \<noteq> 0" "issuer ?inv \<noteq> 0" "\<not> cancelled ?inv" "payer ?inv = 0 \<or> payer ?inv = c"
    by (fact c)+
  from c(5,6) show lt: "p < a"
    unfolding a_def p_def by (metis linorder_neqE_nat word_unat_eq_iff)
  then have rem: "unat (amount ?inv - paidAmount ?inv) = a - p"
    unfolding a_def p_def by (simp add: unat_checked_sub)
  have ap: "unat ?ap = min (unat v) (a - p)"
    using rem by (simp add: word_less_nat_alt min_def)
  have "unat ?ap \<le> unat v" using ap by simp
  then have sub: "unat (v - ?ap) = unat v - min (unat v) (a - p)"
    using ap unat_checked_sub [of ?ap v] by simp
  have "p + unat ?ap < 2 ^ 256"
    using ap lt uint256_bound [of "amount ?inv"] unfolding a_def by simp
  then have paid: "unat (paidAmount ?inv + ?ap) = p + min (unat v) (a - p)"
    using ap unat_checked_add [of "paidAmount ?inv" ?ap] unfolding p_def by simp
  have pend: "unat (pendingReturns s c + (v - ?ap))
      = unat (pendingReturns s c) + (unat v - min (unat v) (a - p))"
    using c(7) sub unat_checked_add [of "pendingReturns s c" "v - ?ap"] by simp
  show "\<exists>paid pend. s' = s\<lparr>pendingReturns := (pendingReturns s)(c := pend),
             invoices := (invoices s)(i := (invoices s i)\<lparr>paidAmount := paid\<rparr>)\<rparr>
        \<and> unat paid = p + min (unat v) (a - p)
        \<and> unat pend = unat (pendingReturns s c) + (unat v - min (unat v) (a - p))
        \<and> evs = [InvoicePaid i c (paid - paidAmount (invoices s i)) paid]"
    using s' paid pend evs by (intro exI [of _ "paidAmount ?inv + ?ap"]
        exI [of _ "pendingReturns s c + (v - ?ap)"]) simp
qed

subsection \<open>The other functions in normal form\<close>

lemma createInvoice_cases:
  "createInvoice c p a d m s =
    (let n = nextInvoiceId s in
     if a = 0 then (Inl InvalidAmount, s)
     else if \<not> unat n + 1 < 2 ^ 256 then (Inl Panic, s)
     else (Inr (n, [InvoiceCreated n c p a]),
           s\<lparr>nextInvoiceId := n + 1,
             invoices := (invoices s)(n := \<lparr>id = n, issuer = c, payer = p, amount = a,
                       paidAmount = 0, dueDate = d, cancelled = False\<rparr>),
             invoiceMetadata := (invoiceMetadata s)(n := m),
             invoicesOfIssuer := (invoicesOfIssuer s)(c := invoicesOfIssuer s c @ [n]),
             invoicesOfPayer := (if p \<noteq> 0 then (invoicesOfPayer s)(p := invoicesOfPayer s p @ [n])
                                 else invoicesOfPayer s)\<rparr>))"
  by (simp add: createInvoice_def Let_def checked_add_def word_greater_zero_iff)

lemma withdraw_cases:
  "withdraw t c i s =
    (let inv = invoices s i;
         s1 = s\<lparr>invoices := (invoices s)(i := inv\<lparr>paidAmount := 0\<rparr>)\<rparr>
     in
     if issuer inv = 0 then (Inl InvoiceNotFound, s)
     else if issuer inv \<noteq> c then (Inl Unauthorized, s)
     else if paidAmount inv = 0 then (Inl NoFundsToWithdraw, s)
     else if \<not> t s1 c (paidAmount inv) then (Inl TransferFailed, s1)
     else (Inr [SendValue c (paidAmount inv), InvoiceWithdrawn i c (paidAmount inv)], s1))"
  by (simp add: withdraw_def Let_def word_greater_zero_iff)

lemma cancelInvoice_cases:
  "cancelInvoice c i s =
    (let inv = invoices s i;
         s1 = s\<lparr>invoices := (invoices s)(i := inv\<lparr>cancelled := True\<rparr>)\<rparr>
     in
     if issuer inv = 0 then (Inl InvoiceNotFound, s)
     else if issuer inv \<noteq> c then (Inl Unauthorized, s)
     else if cancelled inv then (Inl AlreadyCancelled, s)
     else if paidAmount inv = 0 \<or> payer inv = 0 then (Inr [InvoiceCancelled i], s1)
     else if \<not> unat (pendingReturns s (payer inv)) + unat (paidAmount inv) < 2 ^ 256
       then (Inl Panic, s1)
     else (Inr [InvoiceCancelled i],
           s\<lparr>pendingReturns := (pendingReturns s)(payer inv :=
                 pendingReturns s (payer inv) + paidAmount inv),
             invoices := (invoices s)(i := inv\<lparr>cancelled := True, paidAmount := 0\<rparr>)\<rparr>))"
  by (simp add: cancelInvoice_def Let_def checked_add_def word_greater_zero_iff)

lemma withdrawPending_cases:
  "withdrawPending t c s =
    (let s1 = s\<lparr>pendingReturns := (pendingReturns s)(c := 0)\<rparr> in
     if pendingReturns s c = 0 then (Inl NoPendingReturns, s)
     else if \<not> t s1 c (pendingReturns s c) then (Inl TransferFailed, s1)
     else (Inr [SendValue c (pendingReturns s c), PendingReturnWithdrawn c (pendingReturns s c)],
           s1))"
  by (simp add: withdrawPending_def Let_def word_greater_zero_iff)

subsection \<open>Transactions and sequences of calls\<close>

lemma exec_Inr: "exec c s = (Inr r, s') \<longleftrightarrow> body_of c s = (Inr r, s')"
  by (auto simp: exec_def transact_def split: prod.splits sum.splits)

lemma exec_Inl: "fst (exec c s) = Inl e \<Longrightarrow> snd (exec c s) = s"
  by (auto simp: exec_def transact_def split: prod.splits sum.splits)

lemma run_append:
  "run s (xs @ ys) = (case run s xs of None \<Rightarrow> None | Some s1 \<Rightarrow> run s1 ys)"
  by (induction xs arbitrary: s) (auto split: prod.splits sum.splits)

lemma run_invariant:
  assumes "run s cs = Some s'" and "P s" and "\<forall>c \<in> set cs. Q c"
    and step: "\<And>c s r s'. P s \<Longrightarrow> Q c \<Longrightarrow> exec c s = (Inr r, s') \<Longrightarrow> P s'"
  shows "P s'"
  using assms(1-3)
proof (induction cs arbitrary: s)
  case Nil
  then show ?case by simp
next
  case (Cons c cs)
  from Cons.prems(1) obtain r s1 where e: "exec c s = (Inr r, s1)" and r: "run s1 cs = Some s'"
    by (auto split: prod.splits sum.splits)
  have "P s1" using step [OF Cons.prems(2) _ e] Cons.prems(3) by simp
  then show ?case using Cons.IH [OF r] Cons.prems(3) by simp
qed

text \<open>
  A successful call, by cases: which function ran and what storage it left.
\<close>

lemma exec_success_cases [consumes 1, case_names create pay withdraw cancel pending]:
  assumes "exec k s = (Inr r, s')"
  obtains
    (create) c p a d m where "k = CreateInvoice c p a d m" "a \<noteq> 0"
      "unat (nextInvoiceId s) + 1 < 2 ^ 256"
      "s' = s\<lparr>nextInvoiceId := nextInvoiceId s + 1,
             invoices := (invoices s)(nextInvoiceId s :=
                \<lparr>id = nextInvoiceId s, issuer = c, payer = p, amount = a,
                 paidAmount = 0, dueDate = d, cancelled = False\<rparr>),
             invoiceMetadata := (invoiceMetadata s)(nextInvoiceId s := m),
             invoicesOfIssuer := (invoicesOfIssuer s)(c := invoicesOfIssuer s c @ [nextInvoiceId s]),
             invoicesOfPayer := (if p \<noteq> 0
                then (invoicesOfPayer s)(p := invoicesOfPayer s p @ [nextInvoiceId s])
                else invoicesOfPayer s)\<rparr>"
  | (pay) c i v paid pend where "k = PayInvoice c i v"
      "issuer (invoices s i) \<noteq> 0" "\<not> cancelled (invoices s i)"
      "unat (paidAmount (invoices s i)) < unat (amount (invoices s i))"
      "unat paid = unat (paidAmount (invoices s i))
         + min (unat v) (unat (amount (invoices s i)) - unat (paidAmount (invoices s i)))"
      "s' = s\<lparr>pendingReturns := (pendingReturns s)(c := pend),
             invoices := (invoices s)(i := (invoices s i)\<lparr>paidAmount := paid\<rparr>)\<rparr>"
  | (withdraw) t c i where "k = Withdraw t c i" "issuer (invoices s i) = c" "c \<noteq> 0"
      "s' = s\<lparr>invoices := (invoices s)(i := (invoices s i)\<lparr>paidAmount := 0\<rparr>)\<rparr>"
  | (cancel) c i pend where "k = CancelInvoice c i" "issuer (invoices s i) = c" "c \<noteq> 0"
      "s' = s\<lparr>pendingReturns := pend,
             invoices := (invoices s)(i := (invoices s i)\<lparr>cancelled := True,
               paidAmount := (if paidAmount (invoices s i) = 0 \<or> payer (invoices s i) = 0
                              then paidAmount (invoices s i) else 0)\<rparr>)\<rparr>"
  | (pending) t c where "k = WithdrawPending t c"
      "s' = s\<lparr>pendingReturns := (pendingReturns s)(c := 0)\<rparr>"
proof (cases k)
  case (CreateInvoice c p a d m)
  with assms have "createInvoice c p a d m s = (Inr (nextInvoiceId s, r), s')"
    by (auto simp: exec_Inr createInvoice_cases Let_def split: prod.splits sum.splits if_splits)
  then show ?thesis using CreateInvoice
    by (intro create [of c p a d m]) (auto simp: createInvoice_cases Let_def split: if_splits)
next
  case (PayInvoice c i v)
  with assms have p: "payInvoice c i v s = (Inr r, s')" by (simp add: exec_Inr)
  from payInvoice_success(6) [OF p] obtain paid pend where
    "s' = s\<lparr>pendingReturns := (pendingReturns s)(c := pend),
             invoices := (invoices s)(i := (invoices s i)\<lparr>paidAmount := paid\<rparr>)\<rparr>"
    "unat paid = unat (paidAmount (invoices s i))
         + min (unat v) (unat (amount (invoices s i)) - unat (paidAmount (invoices s i)))"
    by blast
  then show ?thesis using PayInvoice payInvoice_success(2,3,5) [OF p]
    by (intro pay [of c i v paid pend]) auto
next
  case (Withdraw t c i)
  with assms have "withdraw t c i s = (Inr r, s')" by (simp add: exec_Inr)
  then show ?thesis using Withdraw
    by (intro withdraw [of t c i]) (auto simp: withdraw_cases Let_def split: if_splits)
next
  case (CancelInvoice c i)
  with assms have "cancelInvoice c i s = (Inr r, s')" by (simp add: exec_Inr)
  then show ?thesis using CancelInvoice
    by (intro cancel [of c i "pendingReturns s'"])
       (auto simp: cancelInvoice_cases Let_def split: if_splits)
next
  case (WithdrawPending t c)
  with assms have "withdrawPending t c s = (Inr r, s')" by (simp add: exec_Inr)
  then show ?thesis using WithdrawPending
    by (intro pending [of t c]) (auto simp: withdrawPending_cases Let_def split: if_splits)
qed

subsection \<open>Invariants of the reachable storage\<close>

lemma step_paid_le_amount:
  assumes "\<forall>j. unat (paidAmount (invoices s j)) \<le> unat (amount (invoices s j))"
    and "exec k s = (Inr r, s')"
  shows "\<forall>j. unat (paidAmount (invoices s' j)) \<le> unat (amount (invoices s' j))"
  using assms(2,1) by (cases rule: exec_success_cases) auto

lemma reachable_paid_le_amount:
  assumes "run ledger0 cs = Some s"
  shows "\<forall>j. unat (paidAmount (invoices s j)) \<le> unat (amount (invoices s j))"
  using assms
proof (rule run_invariant [where Q = "\<lambda>_. True"])
  show "\<forall>j. unat (paidAmount (invoices ledger0 j)) \<le> unat (amount (invoices ledger0 j))"
    by (simp add: ledger0_def zero_invoice_def)
qed (auto dest: step_paid_le_amount)

lemma step_cancelled_refunded:
  assumes "\<forall>j. cancelled (invoices s j) \<and> payer (invoices s j) \<noteq> 0 \<longrightarrow> paidAmount (invoices s j) = 0"
    and "exec k s = (Inr r, s')"
  shows "\<forall>j. cancelled (invoices s' j) \<and> payer (invoices s' j) \<noteq> 0 \<longrightarrow> paidAmount (invoices s' j) = 0"
  using assms(2,1) by (cases rule: exec_success_cases) auto

lemma reachable_cancelled_refunded:
  assumes "run ledger0 cs = Some s"
  shows "\<forall>j. cancelled (invoices s j) \<and> payer (invoices s j) \<noteq> 0 \<longrightarrow> paidAmount (invoices s j) = 0"
  using assms
proof (rule run_invariant [where Q = "\<lambda>_. True"])
  show "\<forall>j. cancelled (invoices ledger0 j) \<and> payer (invoices ledger0 j) \<noteq> 0
      \<longrightarrow> paidAmount (invoices ledger0 j) = 0"
    by (simp add: ledger0_def zero_invoice_def)
qed (auto dest: step_cancelled_refunded)

lemma less_next_iff:
  assumes "unat (n :: uint256) + 1 < 2 ^ 256"
  shows "j < n + 1 \<longleftrightarrow> j < n \<or> j = n"
proof -
  have "unat (n + 1) = unat n + 1" using assms unat_checked_add [of n 1] by simp
  then show ?thesis by (auto simp: word_less_nat_alt word_unat_eq_iff)
qed

lemma step_dense_ids:
  assumes "\<forall>j. (issuer (invoices s j) \<noteq> 0 \<longleftrightarrow> j < nextInvoiceId s)
             \<and> (\<not> j < nextInvoiceId s \<longrightarrow> invoices s j = zero_invoice)"
    and "msg_sender k \<noteq> 0"
    and "exec k s = (Inr r, s')"
  shows "\<forall>j. (issuer (invoices s' j) \<noteq> 0 \<longleftrightarrow> j < nextInvoiceId s')
             \<and> (\<not> j < nextInvoiceId s' \<longrightarrow> invoices s' j = zero_invoice)"
  using assms(3,1,2)
proof (cases rule: exec_success_cases)
  case (create c p a d m)
  then show ?thesis using assms(1,2) by (auto simp: less_next_iff)
next
  case (pay c i v paid pend)
  then show ?thesis using assms(1) by auto
next
  case (withdraw t c i)
  then show ?thesis using assms(1) by auto
next
  case (cancel c i pend)
  then show ?thesis using assms(1) by auto
next
  case (pending t c)
  then show ?thesis using assms(1) by auto
qed

lemma reachable_dense_ids:
  assumes "run ledger0 cs = Some s" and "\<forall>k \<in> set cs. msg_sender k \<noteq> 0"
  shows "\<forall>j. (issuer (invoices s j) \<noteq> 0 \<longleftrightarrow> j < nextInvoiceId s)
             \<and> (\<not> j < nextInvoiceId s \<longrightarrow> invoices s j = zero_invoice)"
  using assms(1) _ assms(2)
proof (rule run_invariant [where Q = "\<lambda>k. msg_sender k \<noteq> 0"])
  show "\<forall>j. (issuer (invoices ledger0 j) \<noteq> 0 \<longleftrightarrow> j < nextInvoiceId ledger0)
             \<and> (\<not> j < nextInvoiceId ledger0 \<longrightarrow> invoices ledger0 j = zero_invoice)"
    by (simp add: ledger0_def zero_invoice_def)
qed (rule step_dense_ids)

subsection \<open>Amounts as integers\<close>

lemma uint_le_unat: "uint (a :: uint256) \<le> uint b \<longleftrightarrow> unat a \<le> unat b"
  unfolding uint_nat by (rule of_nat_le_iff)

lemma uint_paid:
  assumes "unat (x :: uint256) = unat (p :: uint256) + min (unat (v :: uint256)) (unat (a :: uint256) - unat p)"
    and "unat p < unat a"
  shows "uint x = uint p + min (uint v) (uint a - uint p)"
  unfolding uint_nat using assms by arith

subsection \<open>A run of payments on one invoice\<close>

text \<open>
  Successful payments on one invoice add up, capped at the amount of the invoice.
\<close>

lemma run_payments:
  assumes "run s (map (\<lambda>(q, v). PayInvoice q i v) ps) = Some s'"
    and "unat (paidAmount (invoices s i)) \<le> unat (amount (invoices s i))"
  shows "unat (paidAmount (invoices s' i))
      = min (unat (amount (invoices s i)))
            (unat (paidAmount (invoices s i)) + sum_list (map (\<lambda>(q, v). unat v) ps))
    \<and> amount (invoices s' i) = amount (invoices s i)
    \<and> issuer (invoices s' i) = issuer (invoices s i)"
  using assms
proof (induction ps arbitrary: s)
  case Nil
  then show ?case by simp
next
  case (Cons qv ps)
  obtain q v where qv: "qv = (q, v)" by (cases qv)
  from Cons.prems(1) qv obtain r s1 where
    e: "exec (PayInvoice q i v) s = (Inr r, s1)"
    and rest: "run s1 (map (\<lambda>(q, v). PayInvoice q i v) ps) = Some s'"
    by (auto split: prod.splits sum.splits)
  from e have p: "payInvoice q i v s = (Inr r, s1)" by (simp add: exec_Inr)
  let ?a = "unat (amount (invoices s i))" and ?p = "unat (paidAmount (invoices s i))"
  from payInvoice_success(6) [OF p] obtain paid pend where
    s1: "s1 = s\<lparr>pendingReturns := (pendingReturns s)(q := pend),
             invoices := (invoices s)(i := (invoices s i)\<lparr>paidAmount := paid\<rparr>)\<rparr>"
    and paid: "unat paid = ?p + min (unat v) (?a - ?p)"
    by blast
  have lt: "?p < ?a" by (rule payInvoice_success(5) [OF p])
  have f: "unat (paidAmount (invoices s1 i)) = min ?a (?p + unat v)"
    "amount (invoices s1 i) = amount (invoices s i)"
    "issuer (invoices s1 i) = issuer (invoices s i)"
    using s1 paid lt by auto
  then have "unat (paidAmount (invoices s1 i)) \<le> unat (amount (invoices s1 i))" by simp
  from Cons.IH [OF rest this] show ?case
    unfolding f qv by auto
qed

subsection \<open>Ether is conserved\<close>

lemma sum_fun_upd:
  fixes g :: "'b \<Rightarrow> nat" and f :: "'a :: finite \<Rightarrow> 'b"
  shows "(\<Sum>j \<in> UNIV. g ((f(i := y)) j)) + g (f i) = (\<Sum>j \<in> UNIV. g (f j)) + g y"
proof -
  have a: "(\<Sum>j \<in> UNIV. g ((f(i := y)) j)) = g y + (\<Sum>j \<in> UNIV - {i}. g ((f(i := y)) j))"
    using sum.remove [of UNIV i "\<lambda>j. g ((f(i := y)) j)"] by simp
  have b: "(\<Sum>j \<in> UNIV - {i}. g ((f(i := y)) j)) = (\<Sum>j \<in> UNIV - {i}. g (f j))"
    by (rule sum.cong) auto
  have c: "(\<Sum>j \<in> UNIV. g (f j)) = g (f i) + (\<Sum>j \<in> UNIV - {i}. g (f j))"
    using sum.remove [of UNIV i "\<lambda>j. g (f j)"] by simp
  show ?thesis unfolding a b c by simp
qed

lemma paid_total_upd:
  assumes "invoices s' = (invoices s)(i := r)"
  shows "paid_total s' + unat (paidAmount (invoices s i)) = paid_total s + unat (paidAmount r)"
  unfolding paid_total_def assms
  by (rule sum_fun_upd [of "\<lambda>x. unat (paidAmount x)" "invoices s" i r])

lemma paid_total_same: "invoices s' = invoices s \<Longrightarrow> paid_total s' = paid_total s"
  by (simp add: paid_total_def)

lemma pending_total_upd:
  assumes "pendingReturns s' = (pendingReturns s)(a := p)"
  shows "pending_total s' + unat (pendingReturns s a) = pending_total s + unat p"
  unfolding pending_total_def assms
  by (rule sum_fun_upd [of unat "pendingReturns s" a p])

lemma pending_total_same:
  "pendingReturns s' = pendingReturns s \<Longrightarrow> pending_total s' = pending_total s"
  by (simp add: pending_total_def)

lemma pending_le_total: "unat (pendingReturns s a) \<le> pending_total s"
  unfolding pending_total_def
  using member_le_sum [of a UNIV "\<lambda>a. unat (pendingReturns s a)"] by simp

text \<open>
  A delivered transaction keeps the invariant: the paid amounts and the pending
  returns together are covered by the balance of the contract.
\<close>

lemma deliver_held:
  assumes "deliver x (bal, s) = Some (bal', s')"
    and "paid_total s + pending_total s \<le> unat bal"
  shows "paid_total s' + pending_total s' \<le> unat bal'"
proof (cases x)
  case (Receive v)
  with assms show ?thesis
    by (auto simp: unat_checked_add split: if_splits)
next
  case (Call k)
  with assms(1) obtain evs where
    fits: "unat bal + unat (msg_value k) < 2 ^ 256"
    and e: "exec k s = (Inr evs, s')"
    and out: "ether_sent evs \<le> unat (bal + msg_value k)"
    and bal': "bal' = bal + msg_value k - of_nat (ether_sent evs)"
    by (auto split: if_splits prod.splits sum.splits)
  have inb: "unat (bal + msg_value k) = unat bal + unat (msg_value k)"
    using fits by (rule unat_checked_add)
  have ub: "unat bal' = unat bal + unat (msg_value k) - ether_sent evs"
  proof -
    have "ether_sent evs < 2 ^ 256" using out uint256_bound [of "bal + msg_value k"] by simp
    then have "unat (of_nat (ether_sent evs) :: uint256) = ether_sent evs"
      by (simp add: unat_of_nat)
    then show ?thesis
      using out inb bal' unat_checked_sub [of "of_nat (ether_sent evs)" "bal + msg_value k"]
      by simp
  qed
  from e have b: "body_of k s = (Inr evs, s')" by (simp add: exec_Inr)
  show ?thesis
  proof (cases k)
    case (CreateInvoice c p a d m)
    with b obtain n where "createInvoice c p a d m s = (Inr (n, evs), s')"
      by (auto split: prod.splits sum.splits)
    then have s': "s' = s\<lparr>nextInvoiceId := nextInvoiceId s + 1,
             invoices := (invoices s)(nextInvoiceId s :=
                \<lparr>id = nextInvoiceId s, issuer = c, payer = p, amount = a,
                 paidAmount = 0, dueDate = d, cancelled = False\<rparr>),
             invoiceMetadata := (invoiceMetadata s)(nextInvoiceId s := m),
             invoicesOfIssuer := (invoicesOfIssuer s)(c := invoicesOfIssuer s c @ [nextInvoiceId s]),
             invoicesOfPayer := (if p \<noteq> 0
                then (invoicesOfPayer s)(p := invoicesOfPayer s p @ [nextInvoiceId s])
                else invoicesOfPayer s)\<rparr>"
      and evs: "evs = [InvoiceCreated n c p a]"
      by (auto simp: createInvoice_cases Let_def split: if_splits)
    have "invoices s' = (invoices s)(nextInvoiceId s := \<lparr>id = nextInvoiceId s, issuer = c,
          payer = p, amount = a, paidAmount = 0, dueDate = d, cancelled = False\<rparr>)"
      unfolding s' by simp
    from paid_total_upd [OF this] have "paid_total s' \<le> paid_total s" by simp
    moreover have "pending_total s' = pending_total s"
      by (rule pending_total_same) (simp add: s')
    ultimately show ?thesis using assms(2) ub evs CreateInvoice by simp
  next
    case (PayInvoice c i v)
    with b have p: "payInvoice c i v s = (Inr evs, s')" by simp
    let ?a = "unat (amount (invoices s i))" and ?p = "unat (paidAmount (invoices s i))"
    from payInvoice_success(6) [OF p] obtain paid pend where
      s': "s' = s\<lparr>pendingReturns := (pendingReturns s)(c := pend),
             invoices := (invoices s)(i := (invoices s i)\<lparr>paidAmount := paid\<rparr>)\<rparr>"
      and paid: "unat paid = ?p + min (unat v) (?a - ?p)"
      and pend: "unat pend = unat (pendingReturns s c) + (unat v - min (unat v) (?a - ?p))"
      and evs: "evs = [InvoicePaid i c (paid - paidAmount (invoices s i)) paid]"
      by blast
    have "invoices s' = (invoices s)(i := (invoices s i)\<lparr>paidAmount := paid\<rparr>)"
      unfolding s' by simp
    from paid_total_upd [OF this] have "paid_total s' + ?p = paid_total s + unat paid" by simp
    moreover have "pendingReturns s' = (pendingReturns s)(c := pend)" unfolding s' by simp
    from pending_total_upd [OF this]
    have "pending_total s' + unat (pendingReturns s c) = pending_total s + unat pend" .
    ultimately have "paid_total s' + pending_total s' = paid_total s + pending_total s + unat v"
      using paid pend by arith
    then show ?thesis using assms(2) ub evs PayInvoice by simp
  next
    case (Withdraw t c i)
    with b have "withdraw t c i s = (Inr evs, s')" by simp
    then have s': "s' = s\<lparr>invoices := (invoices s)(i := (invoices s i)\<lparr>paidAmount := 0\<rparr>)\<rparr>"
      and evs: "evs = [SendValue c (paidAmount (invoices s i)),
                       InvoiceWithdrawn i c (paidAmount (invoices s i))]"
      by (auto simp: withdraw_cases Let_def split: if_splits)
    have "invoices s' = (invoices s)(i := (invoices s i)\<lparr>paidAmount := 0\<rparr>)"
      unfolding s' by simp
    from paid_total_upd [OF this]
    have "paid_total s' + unat (paidAmount (invoices s i)) = paid_total s" by simp
    moreover have "pending_total s' = pending_total s"
      by (rule pending_total_same) (simp add: s')
    ultimately show ?thesis using assms(2) ub evs Withdraw by simp
  next
    case (CancelInvoice c i)
    with b have cn: "cancelInvoice c i s = (Inr evs, s')" by simp
    let ?inv = "invoices s i"
    show ?thesis
    proof (cases "paidAmount ?inv = 0 \<or> payer ?inv = 0")
      case True
      with cn have s': "s' = s\<lparr>invoices := (invoices s)(i := ?inv\<lparr>cancelled := True\<rparr>)\<rparr>"
        and evs: "evs = [InvoiceCancelled i]"
        by (auto simp: cancelInvoice_cases Let_def split: if_splits)
      have "invoices s' = (invoices s)(i := ?inv\<lparr>cancelled := True\<rparr>)"
        unfolding s' by simp
      from paid_total_upd [OF this] have "paid_total s' = paid_total s" by simp
      moreover have "pending_total s' = pending_total s"
        by (rule pending_total_same) (simp add: s')
      ultimately show ?thesis using assms(2) ub evs CancelInvoice by simp
    next
      case False
      with cn have s': "s' = s\<lparr>pendingReturns := (pendingReturns s)(payer ?inv :=
                 pendingReturns s (payer ?inv) + paidAmount ?inv),
             invoices := (invoices s)(i := ?inv\<lparr>cancelled := True, paidAmount := 0\<rparr>)\<rparr>"
        and fit: "unat (pendingReturns s (payer ?inv)) + unat (paidAmount ?inv) < 2 ^ 256"
        and evs: "evs = [InvoiceCancelled i]"
        by (auto simp: cancelInvoice_cases Let_def split: if_splits)
      have "invoices s' = (invoices s)(i := ?inv\<lparr>cancelled := True, paidAmount := 0\<rparr>)"
        unfolding s' by simp
      from paid_total_upd [OF this]
      have "paid_total s' + unat (paidAmount ?inv) = paid_total s" by simp
      moreover have "pendingReturns s' = (pendingReturns s)(payer ?inv :=
                 pendingReturns s (payer ?inv) + paidAmount ?inv)"
        unfolding s' by simp
      from pending_total_upd [OF this] unat_checked_add [OF fit]
      have "pending_total s' + unat (pendingReturns s (payer ?inv))
          = pending_total s + (unat (pendingReturns s (payer ?inv)) + unat (paidAmount ?inv))"
        by simp
      ultimately show ?thesis using assms(2) ub evs CancelInvoice by simp
    qed
  next
    case (WithdrawPending t c)
    with b have "withdrawPending t c s = (Inr evs, s')" by simp
    then have s': "s' = s\<lparr>pendingReturns := (pendingReturns s)(c := 0)\<rparr>"
      and evs: "evs = [SendValue c (pendingReturns s c), PendingReturnWithdrawn c (pendingReturns s c)]"
      by (auto simp: withdrawPending_cases Let_def split: if_splits)
    have "pendingReturns s' = (pendingReturns s)(c := 0)" unfolding s' by simp
    from pending_total_upd [OF this]
    have "pending_total s' + unat (pendingReturns s c) = pending_total s" by simp
    moreover have "paid_total s' = paid_total s"
      by (rule paid_total_same) (simp add: s')
    ultimately show ?thesis using assms(2) ub evs WithdrawPending by simp
  qed
qed

lemma deliver_paid_le_amount:
  assumes "deliver x (bal, s) = Some (bal', s')"
    and "\<forall>j. unat (paidAmount (invoices s j)) \<le> unat (amount (invoices s j))"
  shows "\<forall>j. unat (paidAmount (invoices s' j)) \<le> unat (amount (invoices s' j))"
proof (cases x)
  case (Receive v)
  with assms show ?thesis by (auto split: if_splits)
next
  case (Call k)
  with assms(1) obtain evs where "exec k s = (Inr evs, s')"
    by (auto split: if_splits prod.splits sum.splits)
  from step_paid_le_amount [OF assms(2) this] show ?thesis .
qed

lemma run_ether_invariant:
  assumes "run_ether (bal, s) xs = Some (bal', s')"
    and "paid_total s + pending_total s \<le> unat bal"
    and "\<forall>j. unat (paidAmount (invoices s j)) \<le> unat (amount (invoices s j))"
  shows "paid_total s' + pending_total s' \<le> unat bal'
    \<and> (\<forall>j. unat (paidAmount (invoices s' j)) \<le> unat (amount (invoices s' j)))"
  using assms
proof (induction xs arbitrary: bal s)
  case Nil
  then show ?case by simp
next
  case (Cons x xs)
  from Cons.prems(1) obtain bal1 s1 where
    d: "deliver x (bal, s) = Some (bal1, s1)" and r: "run_ether (bal1, s1) xs = Some (bal', s')"
    by (auto split: option.splits)
  show ?case
    using Cons.IH [OF r deliver_held [OF d Cons.prems(2)] deliver_paid_le_amount [OF d Cons.prems(3)]] .
qed

lemma totals_ledger0: "paid_total ledger0 = 0" "pending_total ledger0 = 0"
  by (simp_all add: paid_total_def pending_total_def ledger0_def zero_invoice_def)

text \<open>The definitions unfolded to run the contract on concrete calls.\<close>

lemmas example_defs = createInvoice_def payInvoice_def withdraw_def cancelInvoice_def
  withdrawPending_def transact_def exec_def checked_add_def checked_sub_def ledger0_def
  zero_invoice_def getRemainingAmount_def getInvoice_def Let_def

section \<open>Payments\<close>

text \<open>
  C2. For an existing invoice that is not cancelled and has
  \<open>remaining = amount - paidAmount > 0\<close>, and a payment of \<open>msg.value > 0\<close> by
  a caller allowed to pay, a successful \<open>payInvoice\<close> adds exactly
  \<open>applied = min msg.value remaining\<close> to \<open>paidAmount\<close> and credits
  \<open>overpay = msg.value - applied\<close> to the caller's pending returns: the balance
  grows by \<open>overpay\<close> when that is positive and stays as it is otherwise.
  Amounts are read as natural numbers. The witness is the specification's example:
  an invoice of 100 for payer 7, paid with 150 by 7, ends with \<open>paidAmount = 100\<close>
  and a pending return of 50.
\<close>

theorem payInvoice_applies_min:
  assumes "issuer (invoices s i) \<noteq> 0" and "\<not> cancelled (invoices s i)"
    and "unat (paidAmount (invoices s i)) < unat (amount (invoices s i))"
    and "payer (invoices s i) = 0 \<or> payer (invoices s i) = c"
    and "0 < v"
    and "payInvoice c i v s = (Inr evs, s')"
  shows "let remaining = unat (amount (invoices s i)) - unat (paidAmount (invoices s i));
             applied = min (unat v) remaining;
             overpay = unat v - applied
         in unat (paidAmount (invoices s' i)) = unat (paidAmount (invoices s i)) + applied
          \<and> unat (pendingReturns s' c) = unat (pendingReturns s c) + overpay
          \<and> (if 0 < overpay then pendingReturns s' c \<noteq> pendingReturns s c
              else pendingReturns s' c = pendingReturns s c)"
proof -
  from payInvoice_success(6) [OF assms(6)] obtain paid pend where
    s': "s' = s\<lparr>pendingReturns := (pendingReturns s)(c := pend),
             invoices := (invoices s)(i := (invoices s i)\<lparr>paidAmount := paid\<rparr>)\<rparr>"
    and paid: "unat paid = unat (paidAmount (invoices s i))
        + min (unat v) (unat (amount (invoices s i)) - unat (paidAmount (invoices s i)))"
    and pend: "unat pend = unat (pendingReturns s c)
        + (unat v - min (unat v) (unat (amount (invoices s i)) - unat (paidAmount (invoices s i))))"
    by blast
  have "pend = pendingReturns s c" if "unat pend = unat (pendingReturns s c)"
    using that by (simp add: word_unat_eq_iff)
  then show ?thesis
    using s' paid pend by (auto simp: Let_def)
qed

theorem payInvoice_applies_min_witness:
  "fst (createInvoice 1 7 100 0 [] ledger0) = Inr (0, [InvoiceCreated 0 1 7 100])
   \<and> fst (payInvoice 7 0 150 (snd (createInvoice 1 7 100 0 [] ledger0)))
       = Inr [InvoicePaid 0 7 100 100]
   \<and> paidAmount (invoices (snd (payInvoice 7 0 150 (snd (createInvoice 1 7 100 0 [] ledger0)))) 0) = 100
   \<and> pendingReturns (snd (payInvoice 7 0 150 (snd (createInvoice 1 7 100 0 [] ledger0)))) 7 = 50"
proof -
  let ?s = "snd (createInvoice 1 7 100 0 [] ledger0)"
  let ?s' = "snd (payInvoice 7 0 150 ?s)"
  have h1: "issuer (invoices ?s 0) \<noteq> 0" by (simp add: example_defs)
  have h2: "\<not> cancelled (invoices ?s 0)" by (simp add: example_defs)
  have h3: "unat (paidAmount (invoices ?s 0)) < unat (amount (invoices ?s 0))"
    by (simp add: example_defs)
  have h4: "payer (invoices ?s 0) = 0 \<or> payer (invoices ?s 0) = 7" by (simp add: example_defs)
  have h5: "(0 :: uint256) < 150" by simp
  have h6: "payInvoice 7 0 150 ?s = (Inr [InvoicePaid 0 7 100 100], ?s')"
    by (simp add: example_defs)
  have u: "unat (amount (invoices ?s 0)) = 100" "unat (paidAmount (invoices ?s 0)) = 0"
    "unat (pendingReturns ?s 7) = 0"
    by (simp_all add: example_defs)
  from payInvoice_applies_min [OF h1 h2 h3 h4 h5 h6]
  have "unat (paidAmount (invoices ?s' 0)) = 100 \<and> unat (pendingReturns ?s' 7) = 50"
    unfolding u Let_def by simp
  then have "paidAmount (invoices ?s' 0) = 100 \<and> pendingReturns ?s' 7 = 50"
    by (simp add: word_unat_eq_iff)
  moreover have "fst (createInvoice 1 7 100 0 [] ledger0) = Inr (0, [InvoiceCreated 0 1 7 100])"
    by (simp add: example_defs)
  moreover have "fst (payInvoice 7 0 150 ?s) = Inr [InvoicePaid 0 7 100 100]"
    by (simp add: example_defs)
  ultimately show ?thesis by blast
qed

section \<open>The bound on the paid amount\<close>

text \<open>
  C1. In every storage reached from the freshly deployed contract by successful calls
  (createInvoice, payInvoice, withdraw, cancelInvoice, withdrawPending), every invoice
  has \<open>0 \<le> paidAmount \<le> amount\<close>. Every call preserves the bound, from any
  storage that has it, and payInvoice caps what it applies at the remaining amount:
  the paid amount grows by \<open>min msg.value (amount - paidAmount)\<close> and stays within
  \<open>amount\<close>.
\<close>

theorem paid_amount_bounded:
  "(run ledger0 cs = Some s \<longrightarrow>
      (\<forall>j. 0 \<le> uint (paidAmount (invoices s j))
         \<and> uint (paidAmount (invoices s j)) \<le> uint (amount (invoices s j))))
   \<and> ((\<forall>j. uint (paidAmount (invoices s0 j)) \<le> uint (amount (invoices s0 j)))
        \<and> exec k s0 = (Inr r, s1) \<longrightarrow>
      (\<forall>j. uint (paidAmount (invoices s1 j)) \<le> uint (amount (invoices s1 j))))
   \<and> (payInvoice c i v s2 = (Inr evs, s3) \<longrightarrow>
      uint (paidAmount (invoices s3 i)) = uint (paidAmount (invoices s2 i))
         + min (uint v) (uint (amount (invoices s2 i)) - uint (paidAmount (invoices s2 i)))
      \<and> uint (paidAmount (invoices s3 i)) \<le> uint (amount (invoices s3 i)))"
proof (intro conjI impI)
  assume "run ledger0 cs = Some s"
  from reachable_paid_le_amount [OF this]
  show "\<forall>j. 0 \<le> uint (paidAmount (invoices s j))
         \<and> uint (paidAmount (invoices s j)) \<le> uint (amount (invoices s j))"
    by (simp add: uint_le_unat)
next
  assume "(\<forall>j. uint (paidAmount (invoices s0 j)) \<le> uint (amount (invoices s0 j)))
        \<and> exec k s0 = (Inr r, s1)"
  then have "\<forall>j. unat (paidAmount (invoices s0 j)) \<le> unat (amount (invoices s0 j))"
    and "exec k s0 = (Inr r, s1)"
    by (simp_all add: uint_le_unat)
  from step_paid_le_amount [OF this]
  show "\<forall>j. uint (paidAmount (invoices s1 j)) \<le> uint (amount (invoices s1 j))"
    by (simp add: uint_le_unat)
next
  assume p: "payInvoice c i v s2 = (Inr evs, s3)"
  let ?a = "unat (amount (invoices s2 i))" and ?p = "unat (paidAmount (invoices s2 i))"
  from payInvoice_success(6) [OF p] obtain paid pend where
    s3: "s3 = s2\<lparr>pendingReturns := (pendingReturns s2)(c := pend),
             invoices := (invoices s2)(i := (invoices s2 i)\<lparr>paidAmount := paid\<rparr>)\<rparr>"
    and paid: "unat paid = ?p + min (unat v) (?a - ?p)"
    by blast
  have lt: "?p < ?a" by (rule payInvoice_success(5) [OF p])
  show "uint (paidAmount (invoices s3 i)) = uint (paidAmount (invoices s2 i))
         + min (uint v) (uint (amount (invoices s2 i)) - uint (paidAmount (invoices s2 i)))"
    using s3 uint_paid [OF paid lt] by simp
  show "uint (paidAmount (invoices s3 i)) \<le> uint (amount (invoices s3 i))"
    using s3 paid lt by (simp add: uint_le_unat)
qed

theorem paid_amount_bounded_witness:
  "run ledger0 [CreateInvoice 1 7 100 0 [], PayInvoice 7 0 150]
     = Some (snd (payInvoice 7 0 150 (snd (createInvoice 1 7 100 0 [] ledger0))))
   \<and> uint (paidAmount (invoices (snd (payInvoice 7 0 150
        (snd (createInvoice 1 7 100 0 [] ledger0)))) 0)) = 100
   \<and> uint (amount (invoices (snd (payInvoice 7 0 150
        (snd (createInvoice 1 7 100 0 [] ledger0)))) 0)) = 100"
proof -
  let ?s2 = "snd (createInvoice 1 7 100 0 [] ledger0)"
  let ?s3 = "snd (payInvoice 7 0 150 ?s2)"
  let ?k = "CreateInvoice 1 7 100 0 []"
  have h1: "run ledger0 [?k, PayInvoice 7 0 150] = Some ?s3"
    by (simp add: example_defs)
  have h2: "(\<forall>j. uint (paidAmount (invoices ledger0 j)) \<le> uint (amount (invoices ledger0 j)))
      \<and> exec ?k ledger0 = (Inr [InvoiceCreated 0 1 7 100], ?s2)"
    by (simp add: example_defs)
  have h3: "payInvoice 7 0 150 ?s2 = (Inr [InvoicePaid 0 7 100 100], ?s3)"
    by (simp add: example_defs)
  have u: "uint (paidAmount (invoices ?s2 0)) = 0" "uint (amount (invoices ?s2 0)) = 100"
    "uint (amount (invoices ?s3 0)) = 100"
    by (simp_all add: example_defs)
  note inst = paid_amount_bounded [of "[?k, PayInvoice 7 0 150]" ?s3 ledger0 ?k
      "[InvoiceCreated 0 1 7 100]" ?s2 7 0 150 ?s2 "[InvoicePaid 0 7 100 100]" ?s3]
  from inst h1 have "uint (paidAmount (invoices ?s3 0)) \<le> uint (amount (invoices ?s3 0))"
    by blast
  moreover from inst h2
  have "uint (paidAmount (invoices ?s2 0)) \<le> uint (amount (invoices ?s2 0))"
    by blast
  moreover from inst h3
  have "uint (paidAmount (invoices ?s3 0)) = uint (paidAmount (invoices ?s2 0))
      + min (uint (150 :: uint256)) (uint (amount (invoices ?s2 0)) - uint (paidAmount (invoices ?s2 0)))"
    by blast
  ultimately show ?thesis using h1 u by simp
qed

section \<open>The failures of payInvoice\<close>

text \<open>
  C7. \<open>payInvoice\<close> fails exactly under five conditions, tested in this order:
  InvalidAmount when \<open>msg.value \<le> 0\<close>; then InvoiceNotFound when the invoice does
  not exist; then InvoiceCancelled when it is cancelled; then UnauthorizedPayer when
  it names a payer other than the caller; then AlreadyFullyPaid when
  \<open>amount - paidAmount = 0\<close>. On every input for which none of them holds it
  succeeds. The inputs are the ones the contract can receive: a storage and a balance
  reached from the freshly deployed contract, whatever ether it held then, by
  delivered transactions, and a payment the balance can take. There the checked
  subtraction and additions of the body never panic, because the pending returns
  are covered by the balance.
\<close>

theorem payInvoice_fails_exactly:
  assumes "run_ether (b0, ledger0) xs = Some (bal, s)"
    and "unat bal + unat v < 2 ^ 256"
  shows "fst (payInvoice c i v s) =
    (let remaining = unat (amount (invoices s i)) - unat (paidAmount (invoices s i));
         applied = (if unat v \<le> remaining then v
                    else amount (invoices s i) - paidAmount (invoices s i))
     in
     if unat v \<le> 0 then Inl InvalidAmount
     else if issuer (invoices s i) = 0 then Inl InvoiceNotFound
     else if cancelled (invoices s i) then Inl InvoiceIsCancelled
     else if payer (invoices s i) \<noteq> 0 \<and> payer (invoices s i) \<noteq> c then Inl UnauthorizedPayer
     else if remaining = 0 then Inl AlreadyFullyPaid
     else Inr [InvoicePaid i c applied (paidAmount (invoices s i) + applied)])"
proof -
  let ?a = "amount (invoices s i)" and ?p = "paidAmount (invoices s i)"
  have "paid_total ledger0 + pending_total ledger0 \<le> unat b0"
    by (simp add: totals_ledger0)
  moreover have "\<forall>j. unat (paidAmount (invoices ledger0 j)) \<le> unat (amount (invoices ledger0 j))"
    by (simp add: ledger0_def zero_invoice_def)
  ultimately have held: "paid_total s + pending_total s \<le> unat bal"
    and le: "unat ?p \<le> unat ?a"
    using run_ether_invariant [OF assms(1)] by blast+
  have rem: "unat (?a - ?p) = unat ?a - unat ?p" using le by (rule unat_checked_sub)
  have eq: "?a = ?p \<longleftrightarrow> unat ?a - unat ?p = 0"
    using le by (auto simp: word_unat_eq_iff)
  have gt: "?a - ?p < v \<longleftrightarrow> \<not> unat v \<le> unat ?a - unat ?p"
    using rem by (auto simp: word_less_nat_alt)
  have z: "v = 0 \<longleftrightarrow> unat v \<le> 0" by (simp add: unat_eq_zero)
  have pv: "unat (pendingReturns s c) + unat v < 2 ^ 256"
    using pending_le_total [of s c] held assms(2) by simp
  show ?thesis
  proof (cases "unat v \<le> unat ?a - unat ?p")
    case True
    then have "\<not> ?a - ?p < v" using gt by simp
    moreover have "unat (pendingReturns s c) + unat (v - v) < 2 ^ 256"
      using uint256_bound [of "pendingReturns s c"] by simp
    ultimately show ?thesis
      unfolding payInvoice_cases Let_def using True le eq z by simp
  next
    case False
    then have lt: "?a - ?p < v" using gt by simp
    have "unat (?a - ?p) \<le> unat v" using False rem by simp
    from unat_checked_sub [OF this] have "unat (v - (?a - ?p)) \<le> unat v" by simp
    then have "unat (pendingReturns s c) + unat (v - (?a - ?p)) < 2 ^ 256"
      using pv by simp
    then show ?thesis
      unfolding payInvoice_cases Let_def using False lt le eq z by simp
  qed
qed

theorem payInvoice_fails_exactly_witness:
  "run_ether (0, ledger0) [Receive 5, Call (CreateInvoice 1 7 100 0 [])]
     = Some (5, snd (createInvoice 1 7 100 0 [] ledger0))
   \<and> unat (5 :: uint256) + unat (150 :: uint256) < 2 ^ 256
   \<and> fst (payInvoice 7 0 150 (snd (createInvoice 1 7 100 0 [] ledger0)))
       = Inr [InvoicePaid 0 7 100 100]
   \<and> fst (payInvoice 8 0 150 (snd (createInvoice 1 7 100 0 [] ledger0)))
       = Inl UnauthorizedPayer"
proof -
  let ?s = "snd (createInvoice 1 7 100 0 [] ledger0)"
  have h: "run_ether (0, ledger0) [Receive 5, Call (CreateInvoice 1 7 100 0 [])] = Some (5, ?s)"
    by (simp add: example_defs)
  have d: "unat (5 :: uint256) + unat (150 :: uint256) < 2 ^ 256" by simp
  have u: "unat (amount (invoices ?s 0)) = 100" "unat (paidAmount (invoices ?s 0)) = 0"
    "issuer (invoices ?s 0) = 1" "payer (invoices ?s 0) = 7"
    "\<not> cancelled (invoices ?s 0)" "amount (invoices ?s 0) = 100" "paidAmount (invoices ?s 0) = 0"
    by (simp_all add: example_defs)
  have "fst (payInvoice 7 0 150 ?s) = Inr [InvoicePaid 0 7 100 100]"
    using payInvoice_fails_exactly [OF h d, of 7 0] u by (simp add: Let_def)
  moreover have "fst (payInvoice 8 0 150 ?s) = Inl UnauthorizedPayer"
    using payInvoice_fails_exactly [OF h d, of 8 0] u by (simp add: Let_def)
  ultimately show ?thesis using h d by blast
qed

section \<open>What a payment leaves alone\<close>

text \<open>
  C9. A successful \<open>payInvoice\<close> for invoice \<open>i\<close> by caller \<open>c\<close> changes
  the \<open>paidAmount\<close> of invoice \<open>i\<close> and, when the payment exceeds the remaining
  amount, the pending return of \<open>c\<close>, and nothing else: the counter
  \<open>nextInvoiceId\<close>, the metadata, both indices, every other invoice, every other
  field of invoice \<open>i\<close> and every other account's pending return are as before.
\<close>

theorem payInvoice_frame:
  assumes "payInvoice c i v s = (Inr evs, s')"
  shows "nextInvoiceId s' = nextInvoiceId s
    \<and> invoiceMetadata s' = invoiceMetadata s
    \<and> invoicesOfIssuer s' = invoicesOfIssuer s
    \<and> invoicesOfPayer s' = invoicesOfPayer s
    \<and> (\<forall>j. j \<noteq> i \<longrightarrow> invoices s' j = invoices s j)
    \<and> invoices s' i = (invoices s i)\<lparr>paidAmount := paidAmount (invoices s' i)\<rparr>
    \<and> (\<forall>a. a \<noteq> c \<longrightarrow> pendingReturns s' a = pendingReturns s a)
    \<and> (unat v \<le> unat (amount (invoices s i)) - unat (paidAmount (invoices s i))
         \<longrightarrow> pendingReturns s' = pendingReturns s)"
proof -
  from payInvoice_success(6) [OF assms] obtain paid pend where
    s': "s' = s\<lparr>pendingReturns := (pendingReturns s)(c := pend),
             invoices := (invoices s)(i := (invoices s i)\<lparr>paidAmount := paid\<rparr>)\<rparr>"
    and pend: "unat pend = unat (pendingReturns s c)
        + (unat v - min (unat v) (unat (amount (invoices s i)) - unat (paidAmount (invoices s i))))"
    by blast
  have "pend = pendingReturns s c"
    if "unat v \<le> unat (amount (invoices s i)) - unat (paidAmount (invoices s i))"
    using that pend by (simp add: word_unat_eq_iff)
  then show ?thesis using s' by auto
qed

theorem payInvoice_frame_witness:
  "fst (payInvoice 7 0 150 (the (run ledger0
       [CreateInvoice 1 7 100 0 ''a'', CreateInvoice 2 8 5 0 ''b'', PayInvoice 8 1 9])))
     = Inr [InvoicePaid 0 7 100 100]
   \<and> nextInvoiceId (snd (payInvoice 7 0 150 (the (run ledger0
       [CreateInvoice 1 7 100 0 ''a'', CreateInvoice 2 8 5 0 ''b'', PayInvoice 8 1 9])))) = 2
   \<and> paidAmount (invoices (snd (payInvoice 7 0 150 (the (run ledger0
       [CreateInvoice 1 7 100 0 ''a'', CreateInvoice 2 8 5 0 ''b'', PayInvoice 8 1 9])))) 1) = 5
   \<and> pendingReturns (snd (payInvoice 7 0 150 (the (run ledger0
       [CreateInvoice 1 7 100 0 ''a'', CreateInvoice 2 8 5 0 ''b'', PayInvoice 8 1 9])))) 8 = 4"
proof -
  let ?s = "the (run ledger0
       [CreateInvoice 1 7 100 0 ''a'', CreateInvoice 2 8 5 0 ''b'', PayInvoice 8 1 9])"
  let ?s' = "snd (payInvoice 7 0 150 ?s)"
  have h: "payInvoice 7 0 150 ?s = (Inr [InvoicePaid 0 7 100 100], ?s')"
    by (simp add: example_defs)
  have u: "nextInvoiceId ?s = 2" "paidAmount (invoices ?s 1) = 5" "pendingReturns ?s 8 = 4"
    by (simp_all add: example_defs)
  from payInvoice_frame [OF h]
  have "nextInvoiceId ?s' = nextInvoiceId ?s" "invoices ?s' 1 = invoices ?s 1"
    "pendingReturns ?s' 8 = pendingReturns ?s 8"
    by simp_all
  then have "nextInvoiceId ?s' = 2" "paidAmount (invoices ?s' 1) = 5" "pendingReturns ?s' 8 = 4"
    using u by simp_all
  moreover have "fst (payInvoice 7 0 150 ?s) = Inr [InvoicePaid 0 7 100 100]"
    by (simp add: example_defs)
  ultimately show ?thesis by blast
qed

section \<open>Which invoices exist\<close>

text \<open>
  C10. In every storage reached from the freshly deployed contract by successful
  calls of callers other than the zero address, the invoices with a nonzero issuer
  are exactly those with an id below \<open>nextInvoiceId\<close>, and every slot from
  \<open>nextInvoiceId\<close> on is untouched. So the contract's test for existence,
  \<open>issuer \<noteq> 0\<close>, is the test \<open>id < nextInvoiceId\<close> in every lookup:
  getInvoice, getRemainingAmount, payInvoice (with a positive payment, which it
  tests first), withdraw and cancelInvoice report InvoiceNotFound exactly for the
  ids from \<open>nextInvoiceId\<close> on.
\<close>

theorem invoice_exists_iff_allocated:
  assumes "run ledger0 cs = Some s" and "\<forall>k \<in> set cs. msg_sender k \<noteq> 0"
  shows "(issuer (invoices s i) \<noteq> 0 \<longleftrightarrow> i < nextInvoiceId s)
    \<and> (\<not> i < nextInvoiceId s \<longrightarrow> invoices s i = zero_invoice)
    \<and> (getInvoice s i = Inl InvoiceNotFound \<longleftrightarrow> \<not> i < nextInvoiceId s)
    \<and> (getRemainingAmount s i = Inl InvoiceNotFound \<longleftrightarrow> \<not> i < nextInvoiceId s)
    \<and> (v \<noteq> 0 \<longrightarrow>
         (fst (payInvoice c i v s) = Inl InvoiceNotFound \<longleftrightarrow> \<not> i < nextInvoiceId s))
    \<and> (fst (withdraw t c i s) = Inl InvoiceNotFound \<longleftrightarrow> \<not> i < nextInvoiceId s)
    \<and> (fst (cancelInvoice c i s) = Inl InvoiceNotFound \<longleftrightarrow> \<not> i < nextInvoiceId s)"
proof -
  from reachable_dense_ids [OF assms]
  have ex: "issuer (invoices s i) \<noteq> 0 \<longleftrightarrow> i < nextInvoiceId s"
    and zero: "\<not> i < nextInvoiceId s \<longrightarrow> invoices s i = zero_invoice"
    by blast+
  have "getInvoice s i = Inl InvoiceNotFound \<longleftrightarrow> \<not> i < nextInvoiceId s"
    using ex by (auto simp: getInvoice_def Let_def)
  moreover have "getRemainingAmount s i = Inl InvoiceNotFound \<longleftrightarrow> \<not> i < nextInvoiceId s"
    using ex by (auto simp: getRemainingAmount_def Let_def)
  moreover have "fst (payInvoice c i v s) = Inl InvoiceNotFound \<longleftrightarrow> \<not> i < nextInvoiceId s"
    if "v \<noteq> 0"
    using ex that by (auto simp: payInvoice_cases Let_def)
  moreover have "fst (withdraw t c i s) = Inl InvoiceNotFound \<longleftrightarrow> \<not> i < nextInvoiceId s"
    using ex by (auto simp: withdraw_cases Let_def)
  moreover have "fst (cancelInvoice c i s) = Inl InvoiceNotFound \<longleftrightarrow> \<not> i < nextInvoiceId s"
    using ex by (auto simp: cancelInvoice_cases Let_def)
  ultimately show ?thesis using ex zero by blast
qed

theorem invoice_exists_iff_allocated_witness:
  "run ledger0 [CreateInvoice 1 7 100 0 [], CreateInvoice 2 0 5 0 []]
     = Some (snd (createInvoice 2 0 5 0 [] (snd (createInvoice 1 7 100 0 [] ledger0))))
   \<and> msg_sender (CreateInvoice 1 7 100 0 []) \<noteq> 0
   \<and> msg_sender (CreateInvoice 2 0 5 0 []) \<noteq> 0
   \<and> nextInvoiceId (snd (createInvoice 2 0 5 0 [] (snd (createInvoice 1 7 100 0 [] ledger0)))) = 2
   \<and> issuer (invoices (snd (createInvoice 2 0 5 0 [] (snd (createInvoice 1 7 100 0 [] ledger0)))) 1) \<noteq> 0
   \<and> issuer (invoices (snd (createInvoice 2 0 5 0 [] (snd (createInvoice 1 7 100 0 [] ledger0)))) 2) = 0
   \<and> getInvoice (snd (createInvoice 2 0 5 0 [] (snd (createInvoice 1 7 100 0 [] ledger0)))) 2
       = Inl InvoiceNotFound"
proof -
  let ?cs = "[CreateInvoice 1 7 100 0 [], CreateInvoice 2 0 5 0 []]"
  let ?s = "snd (createInvoice 2 0 5 0 [] (snd (createInvoice 1 7 100 0 [] ledger0)))"
  have h1: "run ledger0 ?cs = Some ?s" by (simp add: example_defs)
  have h2: "\<forall>k \<in> set ?cs. msg_sender k \<noteq> 0" by simp
  have n: "nextInvoiceId ?s = 2" by (simp add: example_defs)
  have "issuer (invoices ?s 1) \<noteq> 0"
    using invoice_exists_iff_allocated [OF h1 h2, where i = 1 and v = 1 and c = 1
        and t = "\<lambda>_ _ _. True"] n by simp
  moreover have "issuer (invoices ?s 2) = 0" "getInvoice ?s 2 = Inl InvoiceNotFound"
    using invoice_exists_iff_allocated [OF h1 h2, where i = 2 and v = 1 and c = 1
        and t = "\<lambda>_ _ _. True"] n by (simp_all add: zero_invoice_def)
  ultimately show ?thesis using h1 h2 n by simp
qed

section \<open>Cancellation\<close>

text \<open>
  C4. For an existing invoice that is not yet cancelled, a successful
  \<open>cancelInvoice\<close> by the issuer sets \<open>cancelled\<close>. If the invoice holds a paid
  amount and names a payer, the payer's pending return grows by the paid amount, no
  other pending return changes, and the paid amount becomes 0. Otherwise, and so for
  every open invoice, the paid amount and all pending returns stay as they are. The
  witness has both of the specification's examples: an open invoice of 100 on which
  account 9 paid 30 is cancelled with \<open>paidAmount = 30\<close> still, and an invoice of
  100 for payer 7 on which 7 paid 30 is cancelled with \<open>paidAmount = 0\<close> and a
  pending return of 30 for 7.
\<close>

theorem cancelInvoice_refunds_named_payer:
  assumes "issuer (invoices s i) \<noteq> 0" and "\<not> cancelled (invoices s i)"
    and "issuer (invoices s i) = c"
    and "cancelInvoice c i s = (Inr evs, s')"
  shows "cancelled (invoices s' i)
    \<and> (if paidAmount (invoices s i) \<noteq> 0 \<and> payer (invoices s i) \<noteq> 0
        then unat (pendingReturns s' (payer (invoices s i)))
               = unat (pendingReturns s (payer (invoices s i))) + unat (paidAmount (invoices s i))
           \<and> (\<forall>a. a \<noteq> payer (invoices s i) \<longrightarrow> pendingReturns s' a = pendingReturns s a)
           \<and> paidAmount (invoices s' i) = 0
        else paidAmount (invoices s' i) = paidAmount (invoices s i)
           \<and> pendingReturns s' = pendingReturns s)"
  using assms
  by (auto simp: cancelInvoice_cases Let_def unat_checked_add split: if_splits)

theorem cancelInvoice_refunds_named_payer_witness:
  "fst (cancelInvoice 1 0 (the (run ledger0 [CreateInvoice 1 0 100 0 [], PayInvoice 9 0 30])))
     = Inr [InvoiceCancelled 0]
   \<and> cancelled (invoices (snd (cancelInvoice 1 0
        (the (run ledger0 [CreateInvoice 1 0 100 0 [], PayInvoice 9 0 30])))) 0)
   \<and> paidAmount (invoices (snd (cancelInvoice 1 0
        (the (run ledger0 [CreateInvoice 1 0 100 0 [], PayInvoice 9 0 30])))) 0) = 30
   \<and> pendingReturns (snd (cancelInvoice 1 0
        (the (run ledger0 [CreateInvoice 1 0 100 0 [], PayInvoice 9 0 30])))) 9 = 0
   \<and> fst (cancelInvoice 1 0 (the (run ledger0 [CreateInvoice 1 7 100 0 [], PayInvoice 7 0 30])))
     = Inr [InvoiceCancelled 0]
   \<and> cancelled (invoices (snd (cancelInvoice 1 0
        (the (run ledger0 [CreateInvoice 1 7 100 0 [], PayInvoice 7 0 30])))) 0)
   \<and> paidAmount (invoices (snd (cancelInvoice 1 0
        (the (run ledger0 [CreateInvoice 1 7 100 0 [], PayInvoice 7 0 30])))) 0) = 0
   \<and> unat (pendingReturns (snd (cancelInvoice 1 0
        (the (run ledger0 [CreateInvoice 1 7 100 0 [], PayInvoice 7 0 30])))) 7) = 30"
proof -
  let ?s = "the (run ledger0 [CreateInvoice 1 0 100 0 [], PayInvoice 9 0 30])"
  let ?s' = "snd (cancelInvoice 1 0 ?s)"
  let ?u = "the (run ledger0 [CreateInvoice 1 7 100 0 [], PayInvoice 7 0 30])"
  let ?u' = "snd (cancelInvoice 1 0 ?u)"
  have s: "issuer (invoices ?s 0) \<noteq> 0" "\<not> cancelled (invoices ?s 0)" "issuer (invoices ?s 0) = 1"
    "cancelInvoice 1 0 ?s = (Inr [InvoiceCancelled 0], ?s')"
    by (simp_all add: example_defs)
  have sv: "paidAmount (invoices ?s 0) = 30" "payer (invoices ?s 0) = 0" "pendingReturns ?s 9 = 0"
    by (simp_all add: example_defs)
  have u: "issuer (invoices ?u 0) \<noteq> 0" "\<not> cancelled (invoices ?u 0)" "issuer (invoices ?u 0) = 1"
    "cancelInvoice 1 0 ?u = (Inr [InvoiceCancelled 0], ?u')"
    by (simp_all add: example_defs)
  have uv: "paidAmount (invoices ?u 0) = 30" "payer (invoices ?u 0) = 7" "pendingReturns ?u 7 = 0"
    by (simp_all add: example_defs)
  from cancelInvoice_refunds_named_payer [OF s]
  have "cancelled (invoices ?s' 0) \<and> paidAmount (invoices ?s' 0) = 30 \<and> pendingReturns ?s' 9 = 0"
    using sv by simp
  moreover from cancelInvoice_refunds_named_payer [OF u]
  have "cancelled (invoices ?u' 0) \<and> paidAmount (invoices ?u' 0) = 0
      \<and> unat (pendingReturns ?u' 7) = 30"
    using uv by simp
  moreover have "fst (cancelInvoice 1 0 ?s) = Inr [InvoiceCancelled 0]"
    "fst (cancelInvoice 1 0 ?u) = Inr [InvoiceCancelled 0]"
    by (simp_all add: example_defs)
  ultimately show ?thesis by blast
qed

section \<open>Withdrawal\<close>

text \<open>
  C5. For an existing invoice with \<open>paidAmount > 0\<close>, a successful \<open>withdraw\<close>
  by the issuer leaves \<open>paidAmount = 0\<close> and changes nothing else, and sends the
  issuer exactly the amount that was paid before. The paid amount is zero when the
  transfer is made: the transfer ran on the storage \<open>s'\<close> the call leaves, and
  the call is the same when the transfer is only allowed on storages where the paid
  amount of the invoice is 0. A second \<open>withdraw\<close> on the resulting storage fails
  with NoFundsToWithdraw, whatever its transfer would do.
\<close>

theorem withdraw_pays_issuer:
  assumes "issuer (invoices s i) \<noteq> 0" and "0 < paidAmount (invoices s i)"
    and "issuer (invoices s i) = c"
    and "withdraw t c i s = (Inr evs, s')"
  shows "paidAmount (invoices s' i) = 0
    \<and> s' = s\<lparr>invoices := (invoices s)(i := (invoices s i)\<lparr>paidAmount := 0\<rparr>)\<rparr>
    \<and> evs = [SendValue c (paidAmount (invoices s i)),
              InvoiceWithdrawn i c (paidAmount (invoices s i))]
    \<and> t s' c (paidAmount (invoices s i))
    \<and> withdraw t c i s
        = withdraw (\<lambda>s1 a w. paidAmount (invoices s1 i) = 0 \<and> t s1 a w) c i s
    \<and> (\<forall>t'. withdraw t' c i s' = (Inl NoFundsToWithdraw, s'))
    \<and> (\<forall>t'. exec (Withdraw t' c i) s' = (Inl NoFundsToWithdraw, s'))"
  using assms
  by (auto simp: withdraw_cases exec_def transact_def Let_def split: if_splits)

theorem withdraw_pays_issuer_witness:
  "withdraw (\<lambda>_ _ _. True) 1 0 (the (run ledger0 [CreateInvoice 1 7 100 0 [], PayInvoice 7 0 100]))
     = (Inr [SendValue 1 100, InvoiceWithdrawn 0 1 100],
        snd (withdraw (\<lambda>_ _ _. True) 1 0
          (the (run ledger0 [CreateInvoice 1 7 100 0 [], PayInvoice 7 0 100]))))
   \<and> paidAmount (invoices (the (run ledger0 [CreateInvoice 1 7 100 0 [], PayInvoice 7 0 100])) 0)
       = 100
   \<and> paidAmount (invoices (snd (withdraw (\<lambda>_ _ _. True) 1 0
        (the (run ledger0 [CreateInvoice 1 7 100 0 [], PayInvoice 7 0 100])))) 0) = 0
   \<and> fst (withdraw (\<lambda>_ _ _. True) 1 0 (snd (withdraw (\<lambda>_ _ _. True) 1 0
        (the (run ledger0 [CreateInvoice 1 7 100 0 [], PayInvoice 7 0 100])))))
       = Inl NoFundsToWithdraw"
proof -
  let ?s = "the (run ledger0 [CreateInvoice 1 7 100 0 [], PayInvoice 7 0 100])"
  let ?t = "\<lambda>(_ :: ledger) (_ :: address) (_ :: uint256). True"
  let ?s' = "snd (withdraw ?t 1 0 ?s)"
  have h: "issuer (invoices ?s 0) \<noteq> 0" "0 < paidAmount (invoices ?s 0)"
    "issuer (invoices ?s 0) = 1"
    "withdraw ?t 1 0 ?s = (Inr [SendValue 1 100, InvoiceWithdrawn 0 1 100], ?s')"
    by (simp_all add: example_defs)
  have p: "paidAmount (invoices ?s 0) = 100" by (simp add: example_defs)
  from withdraw_pays_issuer [OF h]
  have "paidAmount (invoices ?s' 0) = 0" "withdraw ?t 1 0 ?s' = (Inl NoFundsToWithdraw, ?s')"
    by blast+
  then show ?thesis using h(4) p by simp
qed

text \<open>
  C8. \<open>withdraw\<close> never looks at \<open>cancelled\<close>. On a cancelled invoice that still
  holds a paid amount, the issuer's \<open>withdraw\<close> succeeds when its transfer does and
  sends the issuer that amount; no \<open>withdraw\<close> fails with InvoiceCancelled or
  AlreadyCancelled; with a transfer that does not look at the storage, the outcome
  is the same whatever the flag is set to. In a storage reached from the freshly
  deployed contract, a cancelled invoice that holds a paid amount is an open one.
\<close>

theorem withdraw_ignores_cancellation:
  "(cancelled (invoices s i) \<and> paidAmount (invoices s i) \<noteq> 0
      \<and> issuer (invoices s i) = c \<and> c \<noteq> 0
      \<and> t (s\<lparr>invoices := (invoices s)(i := (invoices s i)\<lparr>paidAmount := 0\<rparr>)\<rparr>)
           c (paidAmount (invoices s i))
     \<longrightarrow> withdraw t c i s
          = (Inr [SendValue c (paidAmount (invoices s i)),
                  InvoiceWithdrawn i c (paidAmount (invoices s i))],
             s\<lparr>invoices := (invoices s)(i := (invoices s i)\<lparr>paidAmount := 0\<rparr>)\<rparr>))
   \<and> fst (withdraw t c i s) \<noteq> Inl InvoiceIsCancelled
   \<and> fst (withdraw t c i s) \<noteq> Inl AlreadyCancelled
   \<and> fst (withdraw (\<lambda>_. ok) c i
        (s\<lparr>invoices := (invoices s)(i := (invoices s i)\<lparr>cancelled := b\<rparr>)\<rparr>))
       = fst (withdraw (\<lambda>_. ok) c i s)
   \<and> (run ledger0 cs = Some s1 \<and> cancelled (invoices s1 j) \<and> paidAmount (invoices s1 j) \<noteq> 0
       \<longrightarrow> payer (invoices s1 j) = 0)"
proof -
  have "payer (invoices s1 j) = 0"
    if "run ledger0 cs = Some s1" "cancelled (invoices s1 j)" "paidAmount (invoices s1 j) \<noteq> 0"
    using reachable_cancelled_refunded [OF that(1)] that(2,3) by blast
  then show ?thesis
    by (auto simp: withdraw_cases Let_def)
qed

theorem withdraw_ignores_cancellation_witness:
  "run ledger0 [CreateInvoice 1 0 100 0 [], PayInvoice 9 0 30, CancelInvoice 1 0] \<noteq> None
   \<and> cancelled (invoices (the (run ledger0
        [CreateInvoice 1 0 100 0 [], PayInvoice 9 0 30, CancelInvoice 1 0])) 0)
   \<and> paidAmount (invoices (the (run ledger0
        [CreateInvoice 1 0 100 0 [], PayInvoice 9 0 30, CancelInvoice 1 0])) 0) = 30
   \<and> payer (invoices (the (run ledger0
        [CreateInvoice 1 0 100 0 [], PayInvoice 9 0 30, CancelInvoice 1 0])) 0) = 0
   \<and> fst (withdraw (\<lambda>_ _ _. True) 1 0 (the (run ledger0
        [CreateInvoice 1 0 100 0 [], PayInvoice 9 0 30, CancelInvoice 1 0])))
       = Inr [SendValue 1 30, InvoiceWithdrawn 0 1 30]"
proof -
  let ?cs = "[CreateInvoice 1 0 100 0 [], PayInvoice 9 0 30, CancelInvoice 1 0]"
  let ?s = "the (run ledger0 ?cs)"
  let ?t = "\<lambda>(_ :: ledger) (_ :: address) (_ :: uint256). True"
  have r: "run ledger0 ?cs = Some ?s" by (simp add: example_defs)
  have h: "cancelled (invoices ?s 0)" "paidAmount (invoices ?s 0) \<noteq> 0"
    "issuer (invoices ?s 0) = 1" "(1 :: address) \<noteq> 0"
    by (simp_all add: example_defs)
  have p: "paidAmount (invoices ?s 0) = 30" by (simp add: example_defs)
  note inst = withdraw_ignores_cancellation [where s = ?s and i = 0 and c = 1 and t = ?t
      and cs = ?cs and ?s1.0 = ?s and j = 0 and ok = "\<lambda>_ _. True" and b = False]
  from inst h have "withdraw ?t 1 0 ?s
      = (Inr [SendValue 1 (paidAmount (invoices ?s 0)),
              InvoiceWithdrawn 0 1 (paidAmount (invoices ?s 0))],
         ?s\<lparr>invoices := (invoices ?s)(0 := (invoices ?s 0)\<lparr>paidAmount := 0\<rparr>)\<rparr>)"
    by blast
  then have "fst (withdraw ?t 1 0 ?s) = Inr [SendValue 1 30, InvoiceWithdrawn 0 1 30]"
    using p by simp
  moreover from inst r h have "payer (invoices ?s 0) = 0" by blast
  moreover have "run ledger0 ?cs \<noteq> None" by (simp add: example_defs)
  ultimately show ?thesis using h(1) p by blast
qed

section \<open>Failed calls\<close>

text \<open>
  C6. For every call of the five mutating functions (createInvoice, payInvoice,
  withdraw, cancelInvoice, withdrawPending) and every input on which it fails, the
  storage after the call is the storage before it. Every error of a
  \<^verbatim>\<open>require\<close>, that is every error other than TransferFailed and the
  arithmetic panic, is raised while the storage is still untouched. TransferFailed
  arises only in withdraw and withdrawPending, after the paid amount or the pending
  return has been set to 0, and the revert undoes that write. An arithmetic panic,
  which is not among the errors of the specification, is raised on untouched storage
  too, except in cancelInvoice, where the flag is written first; the revert undoes
  that as well.
\<close>

theorem failed_call_leaves_storage:
  "(fst (exec k s) = Inl e \<longrightarrow> snd (exec k s) = s)
   \<and> (fst (body_of k s) = Inl e \<and> e \<noteq> TransferFailed \<and> e \<noteq> Panic
       \<longrightarrow> snd (body_of k s) = s)
   \<and> (fst (body_of k s) = Inl TransferFailed \<longrightarrow>
        (case k of
           Withdraw t c i \<Rightarrow>
             paidAmount (invoices s i) \<noteq> 0
             \<and> snd (body_of k s)
                 = s\<lparr>invoices := (invoices s)(i := (invoices s i)\<lparr>paidAmount := 0\<rparr>)\<rparr>
         | WithdrawPending t c \<Rightarrow>
             pendingReturns s c \<noteq> 0
             \<and> snd (body_of k s) = s\<lparr>pendingReturns := (pendingReturns s)(c := 0)\<rparr>
         | _ \<Rightarrow> False)
        \<and> exec k s = (Inl TransferFailed, s))
   \<and> (fst (body_of k s) = Inl Panic \<longrightarrow>
        (snd (body_of k s) = s
         \<or> (\<exists>c i. k = CancelInvoice c i
               \<and> snd (body_of k s)
                   = s\<lparr>invoices := (invoices s)(i := (invoices s i)\<lparr>cancelled := True\<rparr>)\<rparr>))
        \<and> exec k s = (Inl Panic, s))"
proof (cases k)
  case (CreateInvoice c p a d m)
  then show ?thesis
    by (auto simp: exec_def transact_def createInvoice_cases Let_def split: if_splits)
next
  case (PayInvoice c i v)
  then show ?thesis
    by (auto simp: exec_def transact_def payInvoice_cases Let_def split: if_splits)
next
  case (Withdraw t c i)
  then show ?thesis
    by (auto simp: exec_def transact_def withdraw_cases Let_def split: if_splits)
next
  case (CancelInvoice c i)
  then show ?thesis
    by (auto simp: exec_def transact_def cancelInvoice_cases Let_def split: if_splits)
next
  case (WithdrawPending t c)
  then show ?thesis
    by (auto simp: exec_def transact_def withdrawPending_cases Let_def split: if_splits)
qed

theorem failed_call_leaves_storage_witness:
  "exec (Withdraw (\<lambda>_ _ _. False) 1 0)
       (the (run ledger0 [CreateInvoice 1 7 100 0 [], PayInvoice 7 0 100]))
     = (Inl TransferFailed, the (run ledger0 [CreateInvoice 1 7 100 0 [], PayInvoice 7 0 100]))
   \<and> fst (withdraw (\<lambda>_ _ _. False) 1 0
       (the (run ledger0 [CreateInvoice 1 7 100 0 [], PayInvoice 7 0 100]))) = Inl TransferFailed
   \<and> paidAmount (invoices (the (run ledger0 [CreateInvoice 1 7 100 0 [], PayInvoice 7 0 100])) 0)
       = 100
   \<and> paidAmount (invoices (snd (withdraw (\<lambda>_ _ _. False) 1 0
       (the (run ledger0 [CreateInvoice 1 7 100 0 [], PayInvoice 7 0 100])))) 0) = 0
   \<and> payInvoice 8 0 5 (the (run ledger0 [CreateInvoice 1 7 100 0 [], PayInvoice 7 0 100]))
     = (Inl UnauthorizedPayer, the (run ledger0 [CreateInvoice 1 7 100 0 [], PayInvoice 7 0 100]))"
proof -
  let ?s = "the (run ledger0 [CreateInvoice 1 7 100 0 [], PayInvoice 7 0 100])"
  let ?t = "\<lambda>(_ :: ledger) (_ :: address) (_ :: uint256). False"
  have h1: "fst (body_of (Withdraw ?t 1 0) ?s) = Inl TransferFailed"
    by (simp add: example_defs)
  have h2: "fst (body_of (PayInvoice 8 0 5) ?s) = Inl UnauthorizedPayer
      \<and> UnauthorizedPayer \<noteq> TransferFailed \<and> UnauthorizedPayer \<noteq> Panic"
    by (simp add: example_defs)
  have p: "paidAmount (invoices ?s 0) = 100" by (simp add: example_defs)
  from failed_call_leaves_storage [of "Withdraw ?t 1 0" ?s TransferFailed] h1
  have "snd (body_of (Withdraw ?t 1 0) ?s)
        = ?s\<lparr>invoices := (invoices ?s)(0 := (invoices ?s 0)\<lparr>paidAmount := 0\<rparr>)\<rparr>"
    and e: "exec (Withdraw ?t 1 0) ?s = (Inl TransferFailed, ?s)"
    by simp_all
  then have z: "paidAmount (invoices (snd (withdraw ?t 1 0 ?s)) 0) = 0" by simp
  from failed_call_leaves_storage [of "PayInvoice 8 0 5" ?s UnauthorizedPayer] h2
  have "snd (body_of (PayInvoice 8 0 5) ?s) = ?s" by blast
  then have "payInvoice 8 0 5 ?s = (Inl UnauthorizedPayer, ?s)"
    using h2 by (simp add: prod_eq_iff)
  moreover have "fst (withdraw ?t 1 0 ?s) = Inl TransferFailed" using h1 by simp
  ultimately show ?thesis using e z p by blast
qed

section \<open>The remaining amount\<close>

text \<open>
  C3. For an existing invoice \<open>getRemainingAmount\<close> returns
  \<open>max (amount - paidAmount) 0\<close>, and it fails with InvoiceNotFound when the
  invoice does not exist. So after an invoice of amount \<open>a\<close> is created, paid by
  successful payments that total \<open>a\<close> and withdrawn by its issuer,
  \<open>getRemainingAmount\<close> returns \<open>a\<close> again: the invoice reads as unpaid.
\<close>

theorem getRemainingAmount_resets_after_withdraw:
  "(issuer (invoices s i) \<noteq> 0 \<longrightarrow>
      (\<exists>r. getRemainingAmount s i = Inr r
         \<and> uint r = max (uint (amount (invoices s i)) - uint (paidAmount (invoices s i))) 0))
   \<and> (issuer (invoices s i) = 0 \<longrightarrow> getRemainingAmount s i = Inl InvoiceNotFound)
   \<and> (run s0 (CreateInvoice c p a d m # map (\<lambda>(q, v). PayInvoice q (nextInvoiceId s0) v) ps
               @ [Withdraw t c (nextInvoiceId s0)]) = Some s'
       \<and> sum_list (map (\<lambda>(q, v). unat v) ps) = unat a
       \<longrightarrow> getRemainingAmount s' (nextInvoiceId s0) = Inr a)"
proof (intro conjI impI)
  assume "issuer (invoices s i) \<noteq> 0"
  let ?a = "amount (invoices s i)" and ?p = "paidAmount (invoices s i)"
  show "\<exists>r. getRemainingAmount s i = Inr r \<and> uint r = max (uint ?a - uint ?p) 0"
  proof (cases "?a > ?p")
    case True
    then have "unat ?p \<le> unat ?a" by (simp add: word_less_nat_alt)
    then have "unat (?a - ?p) = unat ?a - unat ?p" by (rule unat_checked_sub)
    then have "uint (?a - ?p) = max (uint ?a - uint ?p) 0"
      using \<open>unat ?p \<le> unat ?a\<close> unfolding uint_nat by arith
    then show ?thesis using True \<open>issuer (invoices s i) \<noteq> 0\<close>
      by (simp add: getRemainingAmount_def Let_def)
  next
    case False
    then have "unat ?a \<le> unat ?p" by (simp add: word_less_nat_alt)
    then have "max (uint ?a - uint ?p) 0 = 0" unfolding uint_nat by arith
    then show ?thesis using False \<open>issuer (invoices s i) \<noteq> 0\<close>
      by (simp add: getRemainingAmount_def Let_def)
  qed
next
  assume "issuer (invoices s i) = 0"
  then show "getRemainingAmount s i = Inl InvoiceNotFound"
    by (simp add: getRemainingAmount_def Let_def)
next
  let ?n = "nextInvoiceId s0"
  let ?pays = "map (\<lambda>(q, v). PayInvoice q ?n v) ps"
  assume "run s0 (CreateInvoice c p a d m # ?pays @ [Withdraw t c ?n]) = Some s'
       \<and> sum_list (map (\<lambda>(q, v). unat v) ps) = unat a"
  then have r: "run s0 (CreateInvoice c p a d m # ?pays @ [Withdraw t c ?n]) = Some s'"
    and total: "sum_list (map (\<lambda>(q, v). unat v) ps) = unat a"
    by simp_all
  from r obtain r1 s1 where
    e1: "exec (CreateInvoice c p a d m) s0 = (Inr r1, s1)"
    and r1: "run s1 (?pays @ [Withdraw t c ?n]) = Some s'"
    by (auto split: prod.splits sum.splits)
  from r1 obtain s2 where r2: "run s1 ?pays = Some s2" and r3: "run s2 [Withdraw t c ?n] = Some s'"
    by (auto simp: run_append split: option.splits)
  from r3 obtain r4 where e4: "exec (Withdraw t c ?n) s2 = (Inr r4, s')"
    by (auto split: prod.splits sum.splits)
  from e1 have a: "a \<noteq> 0" and inv1: "invoices s1 ?n
      = \<lparr>id = ?n, issuer = c, payer = p, amount = a, paidAmount = 0, dueDate = d,
         cancelled = False\<rparr>"
    by (cases rule: exec_success_cases; simp)+
  from inv1 have "unat (paidAmount (invoices s1 ?n)) \<le> unat (amount (invoices s1 ?n))" by simp
  from run_payments [OF r2 this] inv1
  have inv2: "amount (invoices s2 ?n) = a" "issuer (invoices s2 ?n) = c" by simp_all
  from e4 have "withdraw t c ?n s2 = (Inr r4, s')" by (simp add: exec_Inr)
  then have "c \<noteq> 0" and "s' = s2\<lparr>invoices := (invoices s2)(?n := (invoices s2 ?n)\<lparr>paidAmount := 0\<rparr>)\<rparr>"
    using inv2 by (auto simp: withdraw_cases Let_def split: if_splits)
  then show "getRemainingAmount s' ?n = Inr a"
    using inv2 a by (simp add: getRemainingAmount_def Let_def word_greater_zero_iff)
qed

theorem getRemainingAmount_resets_after_withdraw_witness:
  "run ledger0 (CreateInvoice 1 7 100 0 []
       # map (\<lambda>(q, v). PayInvoice q (nextInvoiceId ledger0) v) [(7, 60), (7, 40)]
       @ [Withdraw (\<lambda>_ _ _. True) 1 (nextInvoiceId ledger0)])
     = Some (the (run ledger0 [CreateInvoice 1 7 100 0 [], PayInvoice 7 0 60, PayInvoice 7 0 40,
         Withdraw (\<lambda>_ _ _. True) 1 0]))
   \<and> getRemainingAmount (the (run ledger0 [CreateInvoice 1 7 100 0 [], PayInvoice 7 0 60,
         PayInvoice 7 0 40])) 0 = Inr 0
   \<and> getRemainingAmount (the (run ledger0 [CreateInvoice 1 7 100 0 [], PayInvoice 7 0 60,
         PayInvoice 7 0 40, Withdraw (\<lambda>_ _ _. True) 1 0])) 0 = Inr 100
   \<and> getRemainingAmount (the (run ledger0 [CreateInvoice 1 7 100 0 [], PayInvoice 7 0 60,
         PayInvoice 7 0 40, Withdraw (\<lambda>_ _ _. True) 1 0])) 1 = Inl InvoiceNotFound"
proof -
  let ?t = "\<lambda>(_ :: ledger) (_ :: address) (_ :: uint256). True"
  let ?s2 = "the (run ledger0 [CreateInvoice 1 7 100 0 [], PayInvoice 7 0 60, PayInvoice 7 0 40])"
  let ?s' = "the (run ledger0 [CreateInvoice 1 7 100 0 [], PayInvoice 7 0 60, PayInvoice 7 0 40,
         Withdraw ?t 1 0])"
  have n: "nextInvoiceId ledger0 = 0" by (simp add: ledger0_def)
  have h: "run ledger0 (CreateInvoice 1 7 100 0 []
       # map (\<lambda>(q, v). PayInvoice q (nextInvoiceId ledger0) v) [(7, 60), (7, 40)]
       @ [Withdraw ?t 1 (nextInvoiceId ledger0)]) = Some ?s'
     \<and> sum_list (map (\<lambda>(q, v). unat v) [(7 :: address, 60 :: uint256), (7, 40)])
        = unat (100 :: uint256)"
    by (simp add: example_defs)
  note inst = getRemainingAmount_resets_after_withdraw [where ?s0.0 = ledger0 and c = 1
      and p = 7 and a = 100 and d = 0 and m = "[]" and ps = "[(7, 60), (7, 40)]" and t = ?t
      and s' = ?s']
  from inst [where s = ?s' and i = 1] h have a: "getRemainingAmount ?s' 0 = Inr 100"
    unfolding n by blast
  have "issuer (invoices ?s' 1) = 0" by (simp add: example_defs)
  with inst [where s = ?s' and i = 1] have b: "getRemainingAmount ?s' 1 = Inl InvoiceNotFound"
    by blast
  have "issuer (invoices ?s2 0) \<noteq> 0" by (simp add: example_defs)
  with inst [where s = ?s2 and i = 0] obtain r where
    "getRemainingAmount ?s2 0 = Inr r"
    "uint r = max (uint (amount (invoices ?s2 0)) - uint (paidAmount (invoices ?s2 0))) 0"
    by blast
  moreover have "amount (invoices ?s2 0) = 100" "paidAmount (invoices ?s2 0) = 100"
    by (simp_all add: example_defs)
  ultimately have c: "getRemainingAmount ?s2 0 = Inr 0"
    by (simp add: word_uint_eq_iff)
  show ?thesis using h a b c by blast
qed

end
